theory Spec2Isabelle
  imports Complex_Main "HOL-Library.AList" "HOL-Library.List_Lexorder"
    "HOL-Library.Product_Lexorder"
begin

section \<open>Strings\<close>

text \<open>
  A Python \<^verbatim>\<open>str\<close> is a sequence of Unicode code points: its length counts code points
  and two strings compare code point by code point. So a string is a list of code points,
  each an integer (what \<^verbatim>\<open>ord\<close> gives), and \<open>lit\<close> turns a literal of the source into one.
\<close>

type_synonym codepoint = int

type_synonym str = "codepoint list"

definition lit :: "string \<Rightarrow> str" where
  "lit s = map of_char s"

text \<open>
  \<^verbatim>\<open>str.upper\<close> and \<^verbatim>\<open>str.isalpha\<close> read Python's Unicode character database, which is not
  part of the repository. It is a parameter: for each code point, whether it is a letter, and
  the string its upper-case form is (one or more code points: the sharp s becomes \<^verbatim>\<open>SS\<close>; a
  character without case is its own upper-case form).
\<close>

record unicode_data =
  alphabetic :: "codepoint \<Rightarrow> bool"
  uppercase :: "codepoint \<Rightarrow> str"

text \<open>
  The code points that \<^verbatim>\<open>str.strip\<close>, \<^verbatim>\<open>str.split\<close> and \<^verbatim>\<open>str.isspace\<close> take for whitespace:
  the controls U+0009 to U+000D and U+001C to U+001F, the space, U+0085, the no-break space
  U+00A0, U+1680, U+2000 to U+200A, U+2028, U+2029, U+202F, U+205F and U+3000.
\<close>

definition whitespace :: "codepoint list" where
  "whitespace = [0x09, 0x0A, 0x0B, 0x0C, 0x0D, 0x1C, 0x1D, 0x1E, 0x1F, 0x20, 0x85, 0xA0,
                 0x1680, 0x2000, 0x2001, 0x2002, 0x2003, 0x2004, 0x2005, 0x2006, 0x2007,
                 0x2008, 0x2009, 0x200A, 0x2028, 0x2029, 0x202F, 0x205F, 0x3000]"

definition isspace :: "codepoint \<Rightarrow> bool" where
  "isspace c = (c \<in> set whitespace)"

text \<open>\<^verbatim>\<open>s.upper()\<close>: every character is replaced by its upper-case form.\<close>

definition upper :: "unicode_data \<Rightarrow> str \<Rightarrow> str" where
  "upper db s = concat (map (uppercase db) s)"

text \<open>\<^verbatim>\<open>s.strip()\<close>\<close>

definition strip :: "str \<Rightarrow> str" where
  "strip s = rev (dropWhile isspace (rev (dropWhile isspace s)))"

text \<open>\<^verbatim>\<open>s.isalpha()\<close>: at least one character, and all of them letters.\<close>

definition isalpha :: "unicode_data \<Rightarrow> str \<Rightarrow> bool" where
  "isalpha db s = (s \<noteq> [] \<and> list_all (alphabetic db) s)"

text \<open>\<^verbatim>\<open>s.startswith(p)\<close> and \<^verbatim>\<open>s.endswith(p)\<close>\<close>

definition startswith :: "str \<Rightarrow> str \<Rightarrow> bool" where
  "startswith s p = (take (length p) s = p)"

definition endswith :: "str \<Rightarrow> str \<Rightarrow> bool" where
  "endswith s p = (length p \<le> length s \<and> drop (length s - length p) s = p)"

text \<open>\<^verbatim>\<open>x in s\<close> on strings: \<open>x\<close> occurs in \<open>s\<close> as a contiguous substring.\<close>

fun contains :: "str \<Rightarrow> str \<Rightarrow> bool" where
  "contains [] x = (x = [])"
| "contains (c # s) x = (startswith (c # s) x \<or> contains s x)"

text \<open>
  \<^verbatim>\<open>s.split()\<close>: the maximal runs of non-whitespace characters, in order. An empty or
  all-whitespace string has none.
\<close>

function split :: "str \<Rightarrow> str list" where
  "split s = (let t = dropWhile isspace s in
              if t = [] then []
              else takeWhile (\<lambda>c. \<not> isspace c) t # split (dropWhile (\<lambda>c. \<not> isspace c) t))"
  by pat_completeness auto
termination
proof (relation "measure length")
  show "wf (measure length)" by simp
next
  fix s t :: str
  assume t: "t = dropWhile isspace s" and ne: "t \<noteq> []"
  from ne obtain c u where cu: "t = c # u" by (cases t) auto
  have "\<not> isspace c" using t cu by (metis dropWhile_eq_Cons_conv)
  then have "length (dropWhile (\<lambda>c. \<not> isspace c) t) \<le> length u"
    using cu length_dropWhile_le [of "\<lambda>c. \<not> isspace c" u] by simp
  moreover have "length t \<le> length s" using t by (simp add: length_dropWhile_le)
  ultimately show "(dropWhile (\<lambda>c. \<not> isspace c) t, s) \<in> measure length"
    using cu by simp
qed

declare split.simps [simp del]

section \<open>Dictionaries\<close>

text \<open>
  A Python \<^verbatim>\<open>dict\<close> keeps its keys in insertion order, and \<^verbatim>\<open>list(d.keys())\<close> exposes that
  order, so the directory is an association list. \<^verbatim>\<open>d[k] = v\<close> replaces the value in place
  when \<open>k\<close> is present and appends the pair otherwise; \<^verbatim>\<open>d[k]\<close> raises \<^verbatim>\<open>KeyError\<close> on a
  missing key.
\<close>

datatype py_error = KeyError | AttributeError | IndexError

type_synonym dict = "(str \<times> str) list"

definition keys :: "dict \<Rightarrow> str list" where
  "keys d = map fst d"

definition has_key :: "dict \<Rightarrow> str \<Rightarrow> bool" where
  "has_key d k = (k \<in> set (keys d))"

definition setitem :: "dict \<Rightarrow> str \<Rightarrow> str \<Rightarrow> dict" where
  "setitem d k v = AList.update k v d"

definition getitem :: "dict \<Rightarrow> str \<Rightarrow> py_error + str" where
  "getitem d k = (case map_of d k of None \<Rightarrow> Inl KeyError | Some v \<Rightarrow> Inr v)"

section \<open>The static directory of finos-app\<close>

definition STATIC_TICKER_MAP :: dict where
  "STATIC_TICKER_MAP = map (\<lambda>(k, v). (lit k, lit v)) [
    (''APPLE'', ''AAPL''), (''MICROSOFT'', ''MSFT''), (''GOOGLE'', ''GOOGL''),
    (''AMAZON'', ''AMZN''), (''TESLA'', ''TSLA''), (''META'', ''META''),
    (''NETFLIX'', ''NFLX''), (''NVIDIA'', ''NVDA''), (''AMD'', ''AMD''),
    (''INTEL'', ''INTC''), (''COINBASE'', ''COIN''),
    (''BITCOIN'', ''BTC-USD''), (''BTC'', ''BTC-USD''),
    (''ETHEREUM'', ''ETH-USD''), (''ETH'', ''ETH-USD''),
    (''SOLANA'', ''SOL-USD''), (''SOL'', ''SOL-USD''),
    (''DOGECOIN'', ''DOGE-USD''), (''DOGE'', ''DOGE-USD''),
    (''RIPPLE'', ''XRP-USD''), (''XRP'', ''XRP-USD''),
    (''CARDANO'', ''ADA-USD''), (''ADA'', ''ADA-USD''),
    (''SHIBA'', ''SHIB-USD''), (''SHIB'', ''SHIB-USD''),
    (''MATIC'', ''MATIC-USD''), (''POLYGON'', ''MATIC-USD''),
    (''RELIANCE'', ''RELIANCE.NS''), (''RIL'', ''RELIANCE.NS''),
    (''TCS'', ''TCS.NS''), (''TATA CONSULTANCY'', ''TCS.NS''),
    (''HDFC BANK'', ''HDFCBANK.NS''), (''HDFC'', ''HDFCBANK.NS''),
    (''INFOSYS'', ''INFY.NS''), (''INFY'', ''INFY.NS''),
    (''ICICI'', ''ICICIBANK.NS''), (''ICICI BANK'', ''ICICIBANK.NS''),
    (''SBI'', ''SBIN.NS''), (''STATE BANK'', ''SBIN.NS''),
    (''BHARTI AIRTEL'', ''BHARTIARTL.NS''), (''AIRTEL'', ''BHARTIARTL.NS''),
    (''ITC'', ''ITC.NS''),
    (''KOTAK'', ''KOTAKBANK.NS''), (''KOTAK BANK'', ''KOTAKBANK.NS''),
    (''L&T'', ''LT.NS''), (''LARSEN'', ''LT.NS''),
    (''AXIS BANK'', ''AXISBANK.NS''), (''AXIS'', ''AXISBANK.NS''),
    (''HUL'', ''HINDUNILVR.NS''), (''HINDUSTAN UNILEVER'', ''HINDUNILVR.NS''),
    (''TATA MOTORS'', ''TATAMOTORS.NS''),
    (''MARUTI'', ''MARUTI.NS''),
    (''SUN PHARMA'', ''SUNPHARMA.NS''),
    (''ASIAN PAINTS'', ''ASIANPAINT.NS''),
    (''TITAN'', ''TITAN.NS''),
    (''BAJAJ FINANCE'', ''BAJFINANCE.NS''),
    (''ULTRATECH'', ''ULTRACEMCO.NS''),
    (''WIPRO'', ''WIPRO.NS''),
    (''NESTLE'', ''NESTLEIND.NS''),
    (''ZOMATO'', ''ZOMATO.NS''),
    (''PAYTM'', ''PAYTM.NS''),
    (''JIO'', ''JIOFIN.NS''), (''JIO FINANCIAL'', ''JIOFIN.NS''),
    (''OLA'', ''OLAELEC.NS''), (''OLA ELECTRIC'', ''OLAELEC.NS'')]"

text \<open>
  The two module globals. They start as a copy of the static map and the list of its keys.
\<close>

record state =
  TICKER_MAP :: dict
  TICKER_NAMES :: "str list"

definition initial_state :: state where
  "initial_state = \<lparr>TICKER_MAP = STATIC_TICKER_MAP, TICKER_NAMES = keys STATIC_TICKER_MAP\<rparr>"

section \<open>Building the directory: \<open>load_ticker_map\<close>\<close>

text \<open>
  A cell of the data frame read from the listing is a string, or pandas' NaN where the field
  is empty. Formatting NaN in an f-string gives \<^verbatim>\<open>nan\<close>; calling \<^verbatim>\<open>.upper()\<close> on it raises
  \<^verbatim>\<open>AttributeError\<close>.
\<close>

datatype cell = Str str | NaN

record row =
  SYMBOL :: cell
  NAME_OF_COMPANY :: cell

fun format_cell :: "cell \<Rightarrow> str" where
  "format_cell (Str s) = s"
| "format_cell NaN = lit ''nan''"

fun cell_upper :: "unicode_data \<Rightarrow> cell \<Rightarrow> py_error + str" where
  "cell_upper db (Str s) = Inr (upper db s)"
| "cell_upper db NaN = Inl AttributeError"

text \<open>
  The body of the loop over the rows. It mutates the directory in place, so when a statement
  raises, the writes made before it stay: the result is the directory as it then is, with the
  error. The statements run in source order: the f-string, the upper-cased company name, the
  write under the upper-cased symbol, the write under the company name, the first word.
\<close>

definition add_row :: "unicode_data \<Rightarrow> dict \<Rightarrow> row \<Rightarrow> dict \<times> py_error option" where
  "add_row db d r =
     (let symbol = format_cell (SYMBOL r) @ lit ''.NS'' in
      case cell_upper db (NAME_OF_COMPANY r) of
        Inl e \<Rightarrow> (d, Some e)
      | Inr name \<Rightarrow>
          (case cell_upper db (SYMBOL r) of
             Inl e \<Rightarrow> (d, Some e)
           | Inr sym_key \<Rightarrow>
               (let d1 = setitem d sym_key symbol;
                    d2 = setitem d1 name symbol
                in case split name of
                     [] \<Rightarrow> (d2, Some IndexError)
                   | first_word # _ \<Rightarrow>
                       if length first_word > 2 \<and> \<not> has_key d2 first_word
                       then (setitem d2 first_word symbol, None)
                       else (d2, None))))"

fun add_rows :: "unicode_data \<Rightarrow> dict \<Rightarrow> row list \<Rightarrow> dict \<times> py_error option" where
  "add_rows db d [] = (d, None)"
| "add_rows db d (r # rs) =
     (case add_row db d r of
        (d', Some e) \<Rightarrow> (d', Some e)
      | (d', None) \<Rightarrow> add_rows db d' rs)"

text \<open>
  What the network and the CSV reader give: the request raises, or it returns a status code
  together with what \<^verbatim>\<open>pd.read_csv\<close> makes of the body (\<open>None\<close> when it raises). The frame
  has the two columns the loop reads.
\<close>

datatype response = RequestRaises | Response nat "row list option"

definition load_ticker_map :: "unicode_data \<Rightarrow> response \<Rightarrow> state \<Rightarrow> state" where
  "load_ticker_map db resp st =
     (if length (TICKER_MAP st) > length STATIC_TICKER_MAP then st
      else case resp of
        RequestRaises \<Rightarrow> st
      | Response status_code frame \<Rightarrow>
          if status_code = 200 then
            (case frame of
               None \<Rightarrow> st
             | Some rows \<Rightarrow>
                 (case add_rows db (TICKER_MAP st) rows of
                    (d, Some e) \<Rightarrow> st\<lparr>TICKER_MAP := d\<rparr>
                  | (d, None) \<Rightarrow> \<lparr>TICKER_MAP = d, TICKER_NAMES = keys d\<rparr>))
          else st)"

text \<open>The states the two globals can be in: the initial one, and any state after a load.\<close>

inductive reachable :: "unicode_data \<Rightarrow> state \<Rightarrow> bool" where
  reachable_initial: "reachable db initial_state"
| reachable_load: "reachable db st \<Longrightarrow> reachable db (load_ticker_map db resp st)"

text \<open>
  \<^verbatim>\<open>pd.read_csv\<close> reads an empty field as NaN, so a string cell of the frame is never the
  empty string. The states reached through loads of such frames are reachable states.
\<close>

fun cell_ok :: "cell \<Rightarrow> bool" where
  "cell_ok (Str s) = (s \<noteq> [])"
| "cell_ok NaN = True"

fun response_ok :: "response \<Rightarrow> bool" where
  "response_ok (Response status_code (Some rows)) =
     list_all (\<lambda>r. cell_ok (SYMBOL r) \<and> cell_ok (NAME_OF_COMPANY r)) rows"
| "response_ok resp = True"

inductive reachable_csv :: "unicode_data \<Rightarrow> state \<Rightarrow> bool" where
  reachable_csv_initial: "reachable_csv db initial_state"
| reachable_csv_load:
    "reachable_csv db st \<Longrightarrow> response_ok resp \<Longrightarrow> reachable_csv db (load_ticker_map db resp st)"

section \<open>Closest matches (\<^verbatim>\<open>difflib\<close>)\<close>

text \<open>
  \<^verbatim>\<open>difflib.get_close_matches(word, possibilities, n, cutoff)\<close> scores every possibility
  with \<^verbatim>\<open>SequenceMatcher.ratio\<close>, keeps the pairs (score, possibility) whose score is at
  least the cutoff, and returns the possibilities of the \<open>n\<close> largest pairs, best first.
  The pairs are compared as Python tuples: by score, then by the string. The similarity score
  itself is a parameter, \<open>ratio x word\<close>; the two quick ratios the library tests first are upper
  bounds of it, so the filter is the test on \<open>ratio\<close>. Both call sites pass a positive \<open>n\<close>
  and a cutoff within [0, 1], so the library's argument checks do not raise.
\<close>

type_synonym similarity = "str \<Rightarrow> str \<Rightarrow> rat"

fun py_max :: "'a::linorder list \<Rightarrow> 'a option" where
  "py_max [] = None"
| "py_max (x # xs) = Some (fold (\<lambda>y m. if m < y then y else m) xs x)"

definition nlargest :: "nat \<Rightarrow> 'a::linorder list \<Rightarrow> 'a list" where
  "nlargest n xs =
     (if n = 1 then (case py_max xs of None \<Rightarrow> [] | Some m \<Rightarrow> [m])
      else take n (rev (sort xs)))"

definition get_close_matches ::
  "similarity \<Rightarrow> str \<Rightarrow> str list \<Rightarrow> nat \<Rightarrow> rat \<Rightarrow> str list" where
  "get_close_matches ratio word possibilities n cutoff =
     (let result = map (\<lambda>x. (ratio x word, x)) (filter (\<lambda>x. ratio x word \<ge> cutoff) possibilities)
      in map snd (nlargest n result))"

section \<open>Resolution in finos-app: \<open>get_quote\<close>\<close>

text \<open>
  The live lookup \<^verbatim>\<open>yf.Ticker(symbol).fast_info.last_price\<close> either raises or gives a price,
  possibly \<^verbatim>\<open>None\<close>. The \<^verbatim>\<open>if\<close> takes a price that is neither \<^verbatim>\<open>None\<close> nor zero.
\<close>

datatype price_lookup = LookupRaises | LastPrice "rat option"

type_synonym quote_provider = "str \<Rightarrow> price_lookup"

fun truthy :: "rat option \<Rightarrow> bool" where
  "truthy None = False"
| "truthy (Some p) = (p \<noteq> 0)"

definition markers :: "str list" where
  "markers = map lit [''.NS'', ''.BO'', ''^'', ''-'', ''='']"

definition has_marker :: "str \<Rightarrow> bool" where
  "has_marker symbol = list_ex (\<lambda>x. contains symbol x) markers"

text \<open>
  The normalised query: \<^verbatim>\<open>request.symbol.upper().strip()\<close>.
\<close>

definition normalize_query :: "unicode_data \<Rightarrow> str \<Rightarrow> str" where
  "normalize_query db raw = strip (upper db raw)"

text \<open>
  Steps 1 and 2 of \<^verbatim>\<open>get_quote\<close>: the exact match, the prefix scan with the stable sort by
  length, the closest match. The result is the value of \<^verbatim>\<open>symbol\<close> before the suffix logic.
\<close>

definition match_alias :: "dict \<Rightarrow> str list \<Rightarrow> similarity \<Rightarrow> str \<Rightarrow> py_error + str" where
  "match_alias d names ratio query =
     (if has_key d query then getitem d query
      else
        (let matches = filter (\<lambda>k. startswith k query) names in
         if matches \<noteq> [] then getitem d (hd (sort_key length matches))
         else if length query > 2 then
           (let close_matches = get_close_matches ratio query names 1 (1/2) in
            if close_matches \<noteq> [] then getitem d (hd close_matches) else Inr query)
         else Inr query))"

text \<open>
  Step 3, the suffix logic, applied to whatever \<^verbatim>\<open>symbol\<close> holds. The result is the final
  symbol together with the list of symbols looked up at the quote provider.
\<close>

definition suffix_logic :: "unicode_data \<Rightarrow> quote_provider \<Rightarrow> str \<Rightarrow> str \<times> str list" where
  "suffix_logic db yf symbol =
     (if \<not> has_marker symbol then
        (if length symbol \<le> 5 \<and> isalpha db symbol then
           (case yf symbol of
              LookupRaises \<Rightarrow> (symbol @ lit ''.NS'', [symbol])
            | LastPrice p \<Rightarrow>
                if truthy p then (symbol, [symbol]) else (symbol @ lit ''.NS'', [symbol]))
         else (symbol @ lit ''.NS'', []))
      else (symbol, []))"

text \<open>
  Lines 149 to 185 of \<^verbatim>\<open>get_quote\<close>: the symbol that is then handed to the quote provider,
  and the verification lookups made on the way. An exception here would leave through the
  handler of \<^verbatim>\<open>get_quote\<close> as an HTTP error.
\<close>

definition resolve ::
  "unicode_data \<Rightarrow> state \<Rightarrow> similarity \<Rightarrow> quote_provider \<Rightarrow> str
     \<Rightarrow> py_error + str \<times> str list" where
  "resolve db st ratio yf raw =
     (case match_alias (TICKER_MAP st) (TICKER_NAMES st) ratio (normalize_query db raw) of
        Inl e \<Rightarrow> Inl e
      | Inr symbol \<Rightarrow> Inr (suffix_logic db yf symbol))"

section \<open>Resolution in tenali-llm: \<open>get_quote\<close> of the deployment API\<close>

definition crypto_shorthand :: "str list" where
  "crypto_shorthand = map lit [''BTC'', ''ETH'', ''SOL'', ''ADA'', ''XRP'', ''DOGE'']"

text \<open>
  The resolver of \<^verbatim>\<open>deployment/api.py\<close>: the crypto shorthand first, then the exact match,
  then the closest match (three candidates, cutoff 0.4), then the fallback suffix, which
  needs no lookup.
\<close>

definition tenali_match :: "dict \<Rightarrow> str list \<Rightarrow> similarity \<Rightarrow> str \<Rightarrow> py_error + str" where
  "tenali_match d names ratio query =
     (if query \<in> set crypto_shorthand then Inr (query @ lit ''-USD'')
      else if has_key d query then getitem d query
      else if length query > 2 \<and> names \<noteq> [] then
        (let matches = get_close_matches ratio query names 3 (2/5) in
         if matches \<noteq> [] then getitem d (hd matches) else Inr query)
      else Inr query)"

definition tenali_fallback :: "str \<Rightarrow> str" where
  "tenali_fallback symbol =
     (if \<not> endswith symbol (lit ''.NS'') \<and> \<not> endswith symbol (lit ''.BO'')
         \<and> \<not> contains symbol (lit ''^'') \<and> \<not> contains symbol (lit ''-'')
      then (if length symbol < 10 then symbol @ lit ''.NS'' else symbol)
      else symbol)"

definition tenali_resolve ::
  "unicode_data \<Rightarrow> state \<Rightarrow> similarity \<Rightarrow> str \<Rightarrow> py_error + str" where
  "tenali_resolve db st ratio raw =
     (case tenali_match (TICKER_MAP st) (TICKER_NAMES st) ratio (normalize_query db raw) of
        Inl e \<Rightarrow> Inl e
      | Inr symbol \<Rightarrow> Inr (tenali_fallback symbol))"

section \<open>Concrete collaborators\<close>

text \<open>
  The character data used in the examples: the Unicode data of the code points below 256
  (ASCII and the Latin-1 supplement), where every text of the examples lies. Beyond that
  range it is a placeholder without letters and without case.
\<close>

definition latin1_data :: unicode_data where
  "latin1_data =
     \<lparr>alphabetic = (\<lambda>c. (0x41 \<le> c \<and> c \<le> 0x5A) \<or> (0x61 \<le> c \<and> c \<le> 0x7A)
                        \<or> c = 0xAA \<or> c = 0xB5 \<or> c = 0xBA
                        \<or> (0xC0 \<le> c \<and> c \<le> 0xD6) \<or> (0xD8 \<le> c \<and> c \<le> 0xF6)
                        \<or> (0xF8 \<le> c \<and> c \<le> 0xFF)),
      uppercase = (\<lambda>c. if (0x61 \<le> c \<and> c \<le> 0x7A) \<or> (0xE0 \<le> c \<and> c \<le> 0xF6)
                            \<or> (0xF8 \<le> c \<and> c \<le> 0xFE) then [c - 0x20]
                        else if c = 0xB5 then [0x39C]
                        else if c = 0xDF then [0x53, 0x53]
                        else if c = 0xFF then [0x178]
                        else [c])\<rparr>"

text \<open>
  Quote providers used in the examples: one whose lookup always raises (the network is
  down), one that knows no price, one that reports a price for every symbol.
\<close>

definition provider_down :: quote_provider where
  "provider_down symbol = LookupRaises"

definition provider_no_price :: quote_provider where
  "provider_no_price symbol = LastPrice None"

definition provider_priced :: quote_provider where
  "provider_priced symbol = LastPrice (Some 150)"

text \<open>
  Similarity scores for one query word, as a table from alias to score; an alias that is
  not listed shares no character with the word and scores 0. The tables below hold the
  values of \<^verbatim>\<open>SequenceMatcher.ratio\<close> (twice the number of matched characters over the sum
  of the two lengths) between the word and every key of the static map. Where a query is
  resolved before the closest-match stage, no score is asked for and the table is left
  empty.
\<close>

definition scores :: "string \<Rightarrow> (string \<times> rat) list \<Rightarrow> similarity" where
  "scores word tab x w =
     (if w = lit word
      then (case map_of (map (\<lambda>(a, r). (lit a, r)) tab) x of Some r \<Rightarrow> r | None \<Rightarrow> 0)
      else 0)"

definition scores_ZZZZ :: "(string \<times> rat) list" where
  "scores_ZZZZ = [
    (''AMAZON'', 1/5), (''ZOMATO'', 1/5)]"

definition scores_ZZ99 :: "(string \<times> rat) list" where
  "scores_ZZ99 = [
    (''AMAZON'', 1/5), (''ZOMATO'', 1/5)]"

definition scores_JPY_X :: "(string \<times> rat) list" where
  "scores_JPY_X = [
    (''APPLE'', 1/5), (''NETFLIX'', 1/6), (''RIPPLE'', 2/11), (''XRP'', 1/4),
    (''POLYGON'', 1/3), (''TATA CONSULTANCY'', 2/21), (''INFOSYS'', 1/6), (''INFY'', 2/9),
    (''AXIS BANK'', 1/7), (''AXIS'', 2/9), (''SUN PHARMA'', 2/15), (''ASIAN PAINTS'', 2/17),
    (''BAJAJ FINANCE'', 1/9), (''WIPRO'', 1/5), (''PAYTM'', 2/5), (''JIO'', 1/4),
    (''JIO FINANCIAL'', 1/9)]"

definition scores_AMZ :: "(string \<times> rat) list" where
  "scores_AMZ = [
    (''APPLE'', 1/4), (''MICROSOFT'', 1/6), (''AMAZON'', 2/3), (''TESLA'', 1/4),
    (''META'', 2/7), (''NVIDIA'', 2/9), (''AMD'', 2/3), (''COINBASE'', 2/11),
    (''ETHEREUM'', 2/11), (''SOLANA'', 2/9), (''CARDANO'', 1/5), (''ADA'', 1/3),
    (''SHIBA'', 1/4), (''MATIC'', 1/4), (''RELIANCE'', 2/11), (''TATA CONSULTANCY'', 2/19),
    (''HDFC BANK'', 1/6), (''ICICI BANK'', 2/13), (''STATE BANK'', 2/13),
    (''BHARTI AIRTEL'', 1/8), (''AIRTEL'', 2/9), (''KOTAK'', 1/4), (''KOTAK BANK'', 2/13),
    (''LARSEN'', 2/9), (''AXIS BANK'', 1/6), (''AXIS'', 2/7), (''HINDUSTAN UNILEVER'', 2/21),
    (''TATA MOTORS'', 2/7), (''MARUTI'', 2/9), (''SUN PHARMA'', 4/13),
    (''ASIAN PAINTS'', 2/15), (''TITAN'', 1/4), (''BAJAJ FINANCE'', 1/8), (''ULTRATECH'', 1/6),
    (''ZOMATO'', 2/9), (''PAYTM'', 1/2), (''JIO FINANCIAL'', 1/8), (''OLA'', 1/3),
    (''OLA ELECTRIC'', 2/15)]"

text \<open>Listings used in the examples.\<close>

definition listing_bad_name :: "row list" where
  "listing_bad_name =
     [\<lparr>SYMBOL = Str (lit ''ABB''), NAME_OF_COMPANY = Str (lit ''ABB India Limited'')\<rparr>,
      \<lparr>SYMBOL = Str (lit ''ACC''), NAME_OF_COMPANY = NaN\<rparr>]"

definition listing_tata :: "row list" where
  "listing_tata =
     [\<lparr>SYMBOL = Str (lit ''TATAMOTORS''), NAME_OF_COMPANY = Str (lit ''Tata Motors Limited'')\<rparr>,
      \<lparr>SYMBOL = Str (lit ''TATASTEEL''), NAME_OF_COMPANY = Str (lit ''Tata Steel Limited'')\<rparr>]"

definition listing_ge :: "row list" where
  "listing_ge = [\<lparr>SYMBOL = Str (lit ''GEPIL''), NAME_OF_COMPANY = Str (lit ''GE Power India Limited'')\<rparr>]"

definition listing_sharp_s :: "row list" where
  "listing_sharp_s = [\<lparr>SYMBOL = Str [0xDF], NAME_OF_COMPANY = Str (lit ''Strasse AG'')\<rparr>]"

definition listing_sol :: "row list" where
  "listing_sol = [\<lparr>SYMBOL = Str (lit ''SOL''), NAME_OF_COMPANY = Str (lit ''Sol Industries Limited'')\<rparr>]"

section \<open>Properties used in the statements\<close>

text \<open>Every alias of the index is a key of the directory.\<close>

definition names_in_map :: "state \<Rightarrow> bool" where
  "names_in_map st = (set (TICKER_NAMES st) \<subseteq> set (keys (TICKER_MAP st)))"

text \<open>
  The first alias of a list, in list order, among those of minimal length: what the spec
  calls the shortest match, with the first one encountered winning a tie.
\<close>

definition first_shortest :: "str list \<Rightarrow> str" where
  "first_shortest ms = hd (filter (\<lambda>k. \<forall>b \<in> set ms. length k \<le> length b) ms)"

text \<open>
  Two facts of the Unicode character database: no character has an empty upper-case form,
  and a whitespace character has no case.
\<close>

definition case_mapping_ok :: "unicode_data \<Rightarrow> bool" where
  "case_mapping_ok db =
     ((\<forall>c. uppercase db c \<noteq> []) \<and> (\<forall>c. isspace c \<longrightarrow> uppercase db c = [c]))"

text \<open>
  The first word of a row's upper-cased company name, when the row has one:
  \<^verbatim>\<open>name.split()[0]\<close>.
\<close>

definition first_word :: "unicode_data \<Rightarrow> row \<Rightarrow> str option" where
  "first_word db r =
     (case cell_upper db (NAME_OF_COMPANY r) of
        Inl e \<Rightarrow> None
      | Inr name \<Rightarrow> (case split name of [] \<Rightarrow> None | w # ws \<Rightarrow> Some w))"


section \<open>Suffix logic\<close>

lemma markers_codepoints: "markers = [[46, 78, 83], [46, 66, 79], [94], [45], [61]]"
  by code_simp

lemma has_marker_nonempty: "has_marker s \<Longrightarrow> s \<noteq> []"
  by (auto simp: has_marker_def markers_codepoints startswith_def)

lemma suffix_logic_marker: "has_marker s \<Longrightarrow> suffix_logic db yf s = (s, [])"
  by (simp add: suffix_logic_def)

lemma suffix_logic_nonempty: "fst (suffix_logic db yf s) \<noteq> []"
  by (auto simp: suffix_logic_def isalpha_def has_marker_nonempty lit_def split: price_lookup.splits)

section \<open>Queries that no alias stage resolves\<close>

lemma match_alias_unmatched:
  assumes "\<not> has_key d q"
    and "filter (\<lambda>k. startswith k q) names = []"
    and "length q > 2 \<longrightarrow> get_close_matches ratio q names 1 (1/2) = []"
  shows "match_alias d names ratio q = Inr q"
  using assms by (simp add: match_alias_def)

text \<open>
  Claim C5. A query whose normalised form contains a market marker (\<^verbatim>\<open>.NS\<close>, \<^verbatim>\<open>.BO\<close>, a
  caret, a hyphen or an equals sign) and that has no exact match, no prefix match and no
  close match is returned as normalised: nothing is appended and the quote provider is not
  consulted.
\<close>

theorem marker_query_unchanged:
  assumes "\<not> has_key (TICKER_MAP st) (normalize_query db raw)"
    and "filter (\<lambda>k. startswith k (normalize_query db raw)) (TICKER_NAMES st) = []"
    and "length (normalize_query db raw) > 2 \<longrightarrow>
           get_close_matches ratio (normalize_query db raw) (TICKER_NAMES st) 1 (1/2) = []"
    and "has_marker (normalize_query db raw)"
  shows "resolve db st ratio yf raw = Inr (normalize_query db raw, [])"
  using assms by (simp add: resolve_def match_alias_unmatched suffix_logic_marker)

theorem marker_query_unchanged_witness:
  "\<not> has_key (TICKER_MAP initial_state) (normalize_query latin1_data (lit ''jpy=x''))
   \<and> filter (\<lambda>k. startswith k (normalize_query latin1_data (lit ''jpy=x''))) (TICKER_NAMES initial_state) = []
   \<and> get_close_matches (scores ''JPY=X'' scores_JPY_X) (normalize_query latin1_data (lit ''jpy=x''))
         (TICKER_NAMES initial_state) 1 (1/2) = []
   \<and> has_marker (normalize_query latin1_data (lit ''jpy=x''))
   \<and> resolve latin1_data initial_state (scores ''JPY=X'' scores_JPY_X) provider_priced (lit ''jpy=x'')
       = Inr (lit ''JPY=X'', [])"
proof -
  have n: "normalize_query latin1_data (lit ''jpy=x'') = lit ''JPY=X''" by code_simp
  have h1: "\<not> has_key (TICKER_MAP initial_state) (normalize_query latin1_data (lit ''jpy=x''))" by code_simp
  have h2: "filter (\<lambda>k. startswith k (normalize_query latin1_data (lit ''jpy=x''))) (TICKER_NAMES initial_state) = []"
    by code_simp
  have h3: "get_close_matches (scores ''JPY=X'' scores_JPY_X) (normalize_query latin1_data (lit ''jpy=x''))
         (TICKER_NAMES initial_state) 1 (1/2) = []" by code_simp
  have h4: "has_marker (normalize_query latin1_data (lit ''jpy=x''))" by code_simp
  from marker_query_unchanged [OF h1 h2 _ h4, of "scores ''JPY=X'' scores_JPY_X" provider_priced] h3
  have "resolve latin1_data initial_state (scores ''JPY=X'' scores_JPY_X) provider_priced (lit ''jpy=x'')
       = Inr (normalize_query latin1_data (lit ''jpy=x''), [])" by simp
  with n h1 h2 h3 h4 show ?thesis by simp
qed

text \<open>
  Claim C4. Let \<open>q\<close> be a normalised query with no exact, prefix or close match and no
  market marker. If \<open>q\<close> has at most 5 characters and is alphabetic (not empty, and every
  character a letter of the Unicode character database), exactly one lookup is made, for
  \<open>q\<close> itself: \<open>q\<close> is kept when the lookup gives a price that is neither absent
  nor zero, and \<^verbatim>\<open>.NS\<close> is appended when the lookup raises or gives no such price; the
  failure of the lookup is not an error of the resolution. Otherwise \<^verbatim>\<open>.NS\<close> is appended and
  no lookup is made.
\<close>

theorem unmatched_query_suffix:
  assumes "q = normalize_query db raw"
    and "\<not> has_key (TICKER_MAP st) q"
    and "filter (\<lambda>k. startswith k q) (TICKER_NAMES st) = []"
    and "length q > 2 \<longrightarrow> get_close_matches ratio q (TICKER_NAMES st) 1 (1/2) = []"
    and "\<not> has_marker q"
  shows "(length q \<le> 5 \<and> isalpha db q \<and> (\<exists>p. yf q = LastPrice (Some p) \<and> p \<noteq> 0)
            \<longrightarrow> resolve db st ratio yf raw = Inr (q, [q]))
       \<and> (length q \<le> 5 \<and> isalpha db q
            \<and> (yf q = LookupRaises \<or> yf q = LastPrice None \<or> yf q = LastPrice (Some 0))
            \<longrightarrow> resolve db st ratio yf raw = Inr (q @ lit ''.NS'', [q]))
       \<and> (\<not> (length q \<le> 5 \<and> isalpha db q)
            \<longrightarrow> resolve db st ratio yf raw = Inr (q @ lit ''.NS'', []))"
proof -
  have "match_alias (TICKER_MAP st) (TICKER_NAMES st) ratio (normalize_query db raw) = Inr q"
    using assms by (simp add: match_alias_unmatched)
  then have "resolve db st ratio yf raw = Inr (suffix_logic db yf q)"
    by (simp add: resolve_def)
  then show ?thesis
    using assms(5) by (auto simp: suffix_logic_def)
qed

theorem unmatched_query_suffix_witness:
  "\<not> has_key (TICKER_MAP initial_state) (lit ''ZZZZ'')
   \<and> filter (\<lambda>k. startswith k (lit ''ZZZZ'')) (TICKER_NAMES initial_state) = []
   \<and> get_close_matches (scores ''ZZZZ'' scores_ZZZZ) (lit ''ZZZZ'') (TICKER_NAMES initial_state) 1 (1/2) = []
   \<and> \<not> has_marker (lit ''ZZZZ'')
   \<and> resolve latin1_data initial_state (scores ''ZZZZ'' scores_ZZZZ) provider_priced (lit ''zzzz'')
       = Inr (lit ''ZZZZ'', [lit ''ZZZZ''])
   \<and> resolve latin1_data initial_state (scores ''ZZZZ'' scores_ZZZZ) provider_down (lit ''zzzz'')
       = Inr (lit ''ZZZZ.NS'', [lit ''ZZZZ''])
   \<and> resolve latin1_data initial_state (scores ''ZZZZ'' scores_ZZZZ) provider_no_price (lit ''zzzz'')
       = Inr (lit ''ZZZZ.NS'', [lit ''ZZZZ''])
   \<and> \<not> has_key (TICKER_MAP initial_state) (lit ''ZZ99'')
   \<and> filter (\<lambda>k. startswith k (lit ''ZZ99'')) (TICKER_NAMES initial_state) = []
   \<and> get_close_matches (scores ''ZZ99'' scores_ZZ99) (lit ''ZZ99'') (TICKER_NAMES initial_state) 1 (1/2) = []
   \<and> \<not> has_marker (lit ''ZZ99'')
   \<and> resolve latin1_data initial_state (scores ''ZZ99'' scores_ZZ99) provider_priced (lit ''zz99'')
       = Inr (lit ''ZZ99.NS'', [])
   \<and> \<not> has_key (TICKER_MAP initial_state) [0xC9, 0xC9]
   \<and> filter (\<lambda>k. startswith k [0xC9, 0xC9]) (TICKER_NAMES initial_state) = []
   \<and> \<not> has_marker [0xC9, 0xC9]
   \<and> isalpha latin1_data [0xC9, 0xC9]
   \<and> resolve latin1_data initial_state (scores [] []) provider_priced [0xE9, 0xE9]
       = Inr ([0xC9, 0xC9], [[0xC9, 0xC9]])"
proof -
  have n: "lit ''ZZZZ'' = normalize_query latin1_data (lit ''zzzz'')" by code_simp
  have h1: "\<not> has_key (TICKER_MAP initial_state) (lit ''ZZZZ'')" by code_simp
  have h2: "filter (\<lambda>k. startswith k (lit ''ZZZZ'')) (TICKER_NAMES initial_state) = []" by code_simp
  have h3: "get_close_matches (scores ''ZZZZ'' scores_ZZZZ) (lit ''ZZZZ'') (TICKER_NAMES initial_state) 1 (1/2) = []"
    by code_simp
  then have h3': "length (lit ''ZZZZ'') > 2 \<longrightarrow>
      get_close_matches (scores ''ZZZZ'' scores_ZZZZ) (lit ''ZZZZ'') (TICKER_NAMES initial_state) 1 (1/2) = []"
    by simp
  have h4: "\<not> has_marker (lit ''ZZZZ'')" by code_simp
  have a: "isalpha latin1_data (lit ''ZZZZ'') \<and> length (lit ''ZZZZ'') \<le> 5
      \<and> lit ''ZZZZ'' @ lit ''.NS'' = lit ''ZZZZ.NS''" by code_simp
  note z = unmatched_query_suffix [OF n h1 h2 h3' h4]
  have c1: "resolve latin1_data initial_state (scores ''ZZZZ'' scores_ZZZZ) provider_priced (lit ''zzzz'')
       = Inr (lit ''ZZZZ'', [lit ''ZZZZ''])"
    using z [of provider_priced] a by (simp add: provider_priced_def)
  have c2: "resolve latin1_data initial_state (scores ''ZZZZ'' scores_ZZZZ) provider_down (lit ''zzzz'')
       = Inr (lit ''ZZZZ.NS'', [lit ''ZZZZ''])"
    using z [of provider_down] a by (simp add: provider_down_def)
  have c3: "resolve latin1_data initial_state (scores ''ZZZZ'' scores_ZZZZ) provider_no_price (lit ''zzzz'')
       = Inr (lit ''ZZZZ.NS'', [lit ''ZZZZ''])"
    using z [of provider_no_price] a by (simp add: provider_no_price_def)
  have m: "lit ''ZZ99'' = normalize_query latin1_data (lit ''zz99'')" by code_simp
  have k1: "\<not> has_key (TICKER_MAP initial_state) (lit ''ZZ99'')" by code_simp
  have k2: "filter (\<lambda>k. startswith k (lit ''ZZ99'')) (TICKER_NAMES initial_state) = []" by code_simp
  have k3: "get_close_matches (scores ''ZZ99'' scores_ZZ99) (lit ''ZZ99'') (TICKER_NAMES initial_state) 1 (1/2) = []"
    by code_simp
  then have k3': "length (lit ''ZZ99'') > 2 \<longrightarrow>
      get_close_matches (scores ''ZZ99'' scores_ZZ99) (lit ''ZZ99'') (TICKER_NAMES initial_state) 1 (1/2) = []"
    by simp
  have k4: "\<not> has_marker (lit ''ZZ99'')" by code_simp
  have b: "\<not> isalpha latin1_data (lit ''ZZ99'') \<and> lit ''ZZ99'' @ lit ''.NS'' = lit ''ZZ99.NS''"
    by code_simp
  have c4: "resolve latin1_data initial_state (scores ''ZZ99'' scores_ZZ99) provider_priced (lit ''zz99'')
       = Inr (lit ''ZZ99.NS'', [])"
    using unmatched_query_suffix [OF m k1 k2 k3' k4, of provider_priced] b by simp
  have e0: "[0xC9, 0xC9] = normalize_query latin1_data [0xE9, 0xE9]" by code_simp
  have e1: "\<not> has_key (TICKER_MAP initial_state) [0xC9, 0xC9]" by code_simp
  have e2: "filter (\<lambda>k. startswith k [0xC9, 0xC9]) (TICKER_NAMES initial_state) = []"
    by code_simp
  have e3: "length [0xC9, 0xC9 :: int] > 2 \<longrightarrow>
      get_close_matches (scores [] []) [0xC9, 0xC9] (TICKER_NAMES initial_state) 1 (1/2) = []"
    by simp
  have e4: "\<not> has_marker [0xC9, 0xC9]" by code_simp
  have e5: "isalpha latin1_data [0xC9, 0xC9]" by code_simp
  have c5: "resolve latin1_data initial_state (scores [] []) provider_priced [0xE9, 0xE9]
       = Inr ([0xC9, 0xC9], [[0xC9, 0xC9]])"
    using unmatched_query_suffix [OF e0 e1 e2 e3 e4, of provider_priced] e5
    by (simp add: provider_priced_def)
  show ?thesis using h1 h2 h3 h4 c1 c2 c3 k1 k2 k3 k4 c4 e1 e2 e4 e5 c5 by blast
qed

section \<open>Dictionary facts\<close>

lemma keys_setitem: "set (keys (setitem d k v)) = insert k (set (keys d))"
  using dom_update [of k v d] by (simp add: keys_def setitem_def)

lemma distinct_setitem: "distinct (keys d) \<Longrightarrow> distinct (keys (setitem d k v))"
  by (simp add: keys_def setitem_def distinct_update)

lemma map_of_setitem: "map_of (setitem d k v) = (map_of d)(k \<mapsto> v)"
  by (simp add: setitem_def update_conv')

lemma has_key_map_of: "has_key d k = (map_of d k \<noteq> None)"
  by (simp add: has_key_def keys_def map_of_eq_None_iff)

lemma getitem_Some: "map_of d k = Some v \<Longrightarrow> getitem d k = Inr v"
  by (simp add: getitem_def)

lemma getitem_key: "k \<in> set (keys d) \<Longrightarrow> \<exists>v. map_of d k = Some v \<and> getitem d k = Inr v"
  using has_key_map_of [of d k] by (auto simp: has_key_def getitem_def)

section \<open>The index stays within the directory\<close>

lemma add_row_keys: "set (keys d) \<subseteq> set (keys (fst (add_row db d r)))"
  by (auto simp: add_row_def Let_def keys_setitem split: sum.splits list.splits)

lemma add_rows_keys: "set (keys d) \<subseteq> set (keys (fst (add_rows db d rs)))"
proof (induction rs arbitrary: d)
  case Nil
  show ?case by simp
next
  case (Cons r rs)
  obtain d' e where r: "add_row db d r = (d', e)" by (cases "add_row db d r")
  have "set (keys d) \<subseteq> set (keys d')" using add_row_keys [of d db r] r by simp
  moreover have "set (keys d') \<subseteq> set (keys (fst (add_rows db d' rs)))" by (rule Cons.IH)
  ultimately show ?case using r by (cases e) auto
qed

lemma load_ticker_map_names_in_map:
  assumes "names_in_map st"
  shows "names_in_map (load_ticker_map db resp st)"
proof (cases resp)
  case RequestRaises
  with assms show ?thesis by (simp add: load_ticker_map_def)
next
  case (Response code frame)
  show ?thesis
  proof (cases frame)
    case None
    with Response assms show ?thesis by (simp add: load_ticker_map_def)
  next
    case (Some rows)
    obtain d e where r: "add_rows db (TICKER_MAP st) rows = (d, e)"
      by (cases "add_rows db (TICKER_MAP st) rows")
    have "set (keys (TICKER_MAP st)) \<subseteq> set (keys d)"
      using add_rows_keys [of "TICKER_MAP st" db rows] r by simp
    with Response Some r assms show ?thesis
      by (cases e) (auto simp: load_ticker_map_def names_in_map_def)
  qed
qed

lemma reachable_names_in_map: "reachable db st \<Longrightarrow> names_in_map st"
proof (induction rule: reachable.induct)
  case reachable_initial
  show ?case by (simp add: names_in_map_def initial_state_def)
next
  case (reachable_load st resp)
  then show ?case by (simp add: load_ticker_map_names_in_map)
qed

section \<open>Closest matches are possibilities\<close>

lemma fold_max_in: "fold (\<lambda>y m. if m < y then y else m) xs x \<in> insert x (set xs)"
  by (induction xs arbitrary: x) (auto split: if_splits)

lemma py_max_in: "py_max xs = Some m \<Longrightarrow> m \<in> set xs"
  using fold_max_in by (cases xs) auto

lemma nlargest_subset: "set (nlargest n xs) \<subseteq> set xs"
proof (cases "n = 1")
  case True
  then show ?thesis by (auto simp: nlargest_def py_max_in split: option.splits)
next
  case False
  then show ?thesis using set_take_subset [of n "rev (sort xs)"] by (simp add: nlargest_def)
qed

lemma get_close_matches_subset:
  "set (get_close_matches ratio w ps n c) \<subseteq> {x \<in> set ps. c \<le> ratio x w}"
proof -
  let ?res = "map (\<lambda>x. (ratio x w, x)) (filter (\<lambda>x. c \<le> ratio x w) ps)"
  have "snd ` set (nlargest n ?res) \<subseteq> snd ` set ?res"
    using nlargest_subset [of n ?res] by blast
  then show ?thesis by (auto simp: get_close_matches_def Let_def)
qed

lemma hd_sort_key_in: "ms \<noteq> [] \<Longrightarrow> hd (sort_key f ms) \<in> set ms"
proof -
  assume "ms \<noteq> []"
  then have "sort_key f ms \<noteq> []" by (metis set_sort set_empty)
  then have "hd (sort_key f ms) \<in> set (sort_key f ms)" by (rule hd_in_set)
  then show ?thesis by simp
qed

section \<open>Resolution is total\<close>

lemma match_alias_total:
  assumes "set names \<subseteq> set (keys d)"
  shows "\<exists>s. match_alias d names ratio q = Inr s"
proof (cases "has_key d q")
  case True
  then show ?thesis using getitem_key [of q d] by (auto simp: match_alias_def has_key_def)
next
  case nokey: False
  let ?ms = "filter (\<lambda>k. startswith k q) names"
  show ?thesis
  proof (cases "?ms = []")
    case False
    then have "hd (sort_key length ?ms) \<in> set ?ms" by (rule hd_sort_key_in)
    then have "hd (sort_key length ?ms) \<in> set (keys d)" using assms by auto
    then show ?thesis using nokey False getitem_key [of "hd (sort_key length ?ms)" d]
      by (auto simp: match_alias_def)
  next
    case True
    let ?cm = "get_close_matches ratio q names 1 (1/2)"
    show ?thesis
    proof (cases "2 < length q \<and> ?cm \<noteq> []")
      case False
      then show ?thesis using nokey True by (auto simp: match_alias_def Let_def)
    next
      case c: True
      then have "hd ?cm \<in> set ?cm" by simp
      then have "hd ?cm \<in> set (keys d)"
        using get_close_matches_subset [of ratio q names 1 "1/2"] assms by auto
      then show ?thesis using nokey True c getitem_key [of "hd ?cm" d]
        by (auto simp: match_alias_def Let_def)
    qed
  qed
qed

text \<open>
  Claim C2. In every state the program can reach, resolution of any query, empty or not,
  returns a symbol and the symbol is not empty: no lookup in the directory raises, and there
  is no outcome other than a symbol.
\<close>

theorem resolve_total:
  assumes "reachable db st"
  shows "\<exists>symbol lookups. resolve db st ratio yf raw = Inr (symbol, lookups) \<and> symbol \<noteq> []"
proof -
  have "set (TICKER_NAMES st) \<subseteq> set (keys (TICKER_MAP st))"
    using reachable_names_in_map [OF assms] by (simp add: names_in_map_def)
  then obtain s where
    "match_alias (TICKER_MAP st) (TICKER_NAMES st) ratio (normalize_query db raw) = Inr s"
    using match_alias_total by blast
  then have "resolve db st ratio yf raw = Inr (suffix_logic db yf s)"
    by (simp add: resolve_def)
  moreover have "fst (suffix_logic db yf s) \<noteq> []" by (rule suffix_logic_nonempty)
  ultimately show ?thesis by (cases "suffix_logic db yf s") auto
qed

theorem resolve_total_witness:
  "reachable latin1_data initial_state
   \<and> (\<exists>symbol lookups. resolve latin1_data initial_state (scores ''RELI'' []) provider_down (lit ''reli'')
         = Inr (symbol, lookups) \<and> symbol \<noteq> [])
   \<and> resolve latin1_data initial_state (scores ''RELI'' []) provider_down (lit ''reli'') = Inr (lit ''RELIANCE.NS'', [])"
proof -
  have r: "reachable latin1_data initial_state" by (rule reachable_initial)
  have v: "resolve latin1_data initial_state (scores ''RELI'' []) provider_down (lit ''reli'') = Inr (lit ''RELIANCE.NS'', [])"
    by code_simp
  from r resolve_total [OF r, of "scores ''RELI'' []" provider_down "(lit ''reli'')"] v
  show ?thesis by blast
qed

section \<open>The shortest match\<close>

lemma sorted_hd_least: "xs \<noteq> [] \<Longrightarrow> sorted (map f xs) \<Longrightarrow> b \<in> set xs \<Longrightarrow> f (hd xs) \<le> f b"
  by (cases xs) auto

lemma hd_filter_hd: "xs \<noteq> [] \<Longrightarrow> P (hd xs) \<Longrightarrow> hd (filter P xs) = hd xs"
  by (cases xs) auto

lemma hd_sort_key_first_min:
  assumes "ms \<noteq> []"
  shows "hd (sort_key f ms) = hd (filter (\<lambda>k. \<forall>b \<in> set ms. f k \<le> f b) ms)"
proof -
  let ?s = "sort_key f ms"
  let ?x = "hd ?s"
  from assms have ne: "?s \<noteq> []" by (metis set_sort set_empty)
  have "sorted (map f ?s)" by (rule sorted_sort_key)
  with ne have "\<forall>b \<in> set ?s. f ?x \<le> f b" by (blast intro: sorted_hd_least)
  then have least: "\<forall>b \<in> set ms. f ?x \<le> f b" by simp
  have "?x \<in> set ms" using assms by (rule hd_sort_key_in)
  with least have eq: "\<And>k. k \<in> set ms \<Longrightarrow> (\<forall>b \<in> set ms. f k \<le> f b) = (f k = f ?x)"
    by (metis order.antisym)
  have "filter (\<lambda>y. f y = f ?x) ?s = filter (\<lambda>y. f y = f ?x) ms" by (rule sort_key_stable)
  moreover have "hd (filter (\<lambda>y. f y = f ?x) ?s) = ?x" using ne by (simp add: hd_filter_hd)
  ultimately have "hd (filter (\<lambda>y. f y = f ?x) ms) = ?x" by simp
  moreover have "filter (\<lambda>k. \<forall>b \<in> set ms. f k \<le> f b) ms = filter (\<lambda>y. f y = f ?x) ms"
    by (rule filter_cong) (simp_all add: eq)
  ultimately show ?thesis by simp
qed

lemma hd_sort_key_length: "ms \<noteq> [] \<Longrightarrow> hd (sort_key length ms) = first_shortest ms"
  by (simp add: first_shortest_def hd_sort_key_first_min)

lemma hd_filter_first:
  assumes "filter P xs \<noteq> []"
  shows "\<exists>i < length xs. hd (filter P xs) = xs ! i \<and> P (xs ! i) \<and> (\<forall>j < i. \<not> P (xs ! j))"
using assms proof (induction xs)
  case Nil
  then show ?case by simp
next
  case (Cons x xs)
  show ?case
  proof (cases "P x")
    case True
    then have "hd (filter P (x # xs)) = (x # xs) ! 0 \<and> P ((x # xs) ! 0)
      \<and> (\<forall>j < 0. \<not> P ((x # xs) ! j))" by simp
    then show ?thesis by blast
  next
    case False
    with Cons.prems have "filter P xs \<noteq> []" by simp
    from Cons.IH [OF this] obtain i where i: "i < length xs" "hd (filter P xs) = xs ! i"
      "P (xs ! i)" "\<forall>j < i. \<not> P (xs ! j)" by blast
    have "\<forall>j < Suc i. \<not> P ((x # xs) ! j)"
    proof (intro allI impI)
      fix j assume "j < Suc i"
      then show "\<not> P ((x # xs) ! j)" using False i(4) by (cases j) auto
    qed
    with i False have "Suc i < length (x # xs) \<and> hd (filter P (x # xs)) = (x # xs) ! Suc i
      \<and> P ((x # xs) ! Suc i) \<and> (\<forall>j < Suc i. \<not> P ((x # xs) ! j))" by simp
    then show ?thesis by blast
  qed
qed

lemma exists_shortest: "ms \<noteq> [] \<Longrightarrow> \<exists>k \<in> set ms. \<forall>b \<in> set ms. length k \<le> length (b::str)"
proof -
  assume "ms \<noteq> []"
  then have "length ` set ms \<noteq> {}" "finite (length ` set ms)" by auto
  then have "Min (length ` set ms) \<in> length ` set ms" by (rule_tac Min_in)
  then obtain k where "k \<in> set ms" "length k = Min (length ` set ms)" by auto
  then show ?thesis by (metis Min_le List.finite_set finite_imageI imageI)
qed

lemma first_shortest_spec:
  assumes "ms \<noteq> []"
  shows "\<exists>i < length ms. first_shortest ms = ms ! i
           \<and> (\<forall>j < length ms. length (ms ! i) \<le> length (ms ! j))
           \<and> (\<forall>j < i. length (ms ! i) < length (ms ! j))"
proof -
  let ?P = "\<lambda>k. \<forall>b \<in> set ms. length k \<le> length b"
  from exists_shortest [OF assms] have "filter ?P ms \<noteq> []" by (auto simp: filter_empty_conv)
  from hd_filter_first [OF this] obtain i where i: "i < length ms"
    "hd (filter ?P ms) = ms ! i" "?P (ms ! i)" "\<forall>j < i. \<not> ?P (ms ! j)" by blast
  have a: "\<forall>j < length ms. length (ms ! i) \<le> length (ms ! j)" using i(3) by simp
  have b: "\<forall>j < i. length (ms ! i) < length (ms ! j)"
  proof (intro allI impI)
    fix j assume j: "j < i"
    with i(4) obtain b where "b \<in> set ms" "\<not> length (ms ! j) \<le> length b" by blast
    moreover from i(3) \<open>b \<in> set ms\<close> have "length (ms ! i) \<le> length b" by blast
    ultimately show "length (ms ! i) < length (ms ! j)" by simp
  qed
  from i(1,2) a b show ?thesis unfolding first_shortest_def by blast
qed

lemma first_shortest_in: "ms \<noteq> [] \<Longrightarrow> first_shortest ms \<in> set ms"
  using first_shortest_spec [of ms] by (metis nth_mem)

lemma match_alias_exact:
  "map_of d q = Some s \<Longrightarrow> match_alias d names ratio q = Inr s"
  by (simp add: match_alias_def has_key_map_of getitem_def)

lemma match_alias_prefix:
  assumes "\<not> has_key d q" and "ms = filter (\<lambda>k. startswith k q) names" and "ms \<noteq> []"
  shows "match_alias d names ratio q = getitem d (first_shortest ms)"
  using assms by (simp add: match_alias_def hd_sort_key_length)

section \<open>Exact matches\<close>

text \<open>
  Claim C1, as the code has it. When the normalised query is a key of the directory, the
  result does not depend on the alias index or on the similarity scores: it is the key's
  mapped symbol passed through the suffix logic. That is the mapped symbol itself, with no
  lookup, when the symbol carries a market marker; otherwise it is the mapped symbol or the
  mapped symbol with \<^verbatim>\<open>.NS\<close> appended.
\<close>

theorem exact_match_then_suffix:
  assumes "map_of (TICKER_MAP st) (normalize_query db raw) = Some s"
  shows "resolve db st ratio yf raw = Inr (suffix_logic db yf s)
       \<and> (has_marker s \<longrightarrow> resolve db st ratio yf raw = Inr (s, []))
       \<and> (\<exists>lookups. resolve db st ratio yf raw = Inr (s, lookups)
                   \<or> resolve db st ratio yf raw = Inr (s @ lit ''.NS'', lookups))"
proof -
  have r: "resolve db st ratio yf raw = Inr (suffix_logic db yf s)"
    using assms by (simp add: resolve_def match_alias_exact)
  have "\<exists>lookups. suffix_logic db yf s = (s, lookups) \<or> suffix_logic db yf s = (s @ lit ''.NS'', lookups)"
    by (auto simp: suffix_logic_def split: price_lookup.splits)
  with r show ?thesis by (auto simp: suffix_logic_marker)
qed

theorem exact_match_then_suffix_witness:
  "map_of (TICKER_MAP initial_state) (normalize_query latin1_data (lit ''Reliance'')) = Some (lit ''RELIANCE.NS'')
   \<and> has_marker (lit ''RELIANCE.NS'')
   \<and> resolve latin1_data initial_state (scores ''RELIANCE'' []) provider_down (lit ''Reliance'')
       = Inr (lit ''RELIANCE.NS'', [])"
proof -
  have h: "map_of (TICKER_MAP initial_state) (normalize_query latin1_data (lit ''Reliance'')) = Some (lit ''RELIANCE.NS'')"
    by code_simp
  have m: "has_marker (lit ''RELIANCE.NS'')" by code_simp
  from exact_match_then_suffix [OF h, of "scores ''RELIANCE'' []" provider_down] h m
  show ?thesis by blast
qed

text \<open>
  The claim as written, that the mapped symbol is returned whatever the suffix stage does,
  fails for \<^verbatim>\<open>apple\<close> when the quote provider cannot be reached: the key maps to \<^verbatim>\<open>AAPL\<close>
  and the result is \<^verbatim>\<open>AAPL.NS\<close>.
\<close>

theorem exact_match_counterexample:
  "map_of (TICKER_MAP initial_state) (normalize_query latin1_data (lit ''apple'')) = Some (lit ''AAPL'')
   \<and> resolve latin1_data initial_state (scores ''APPLE'' []) provider_down (lit ''apple'')
       = Inr (lit ''AAPL.NS'', [lit ''AAPL''])"
  by code_simp

section \<open>Prefix matches\<close>

lemma resolve_prefix:
  assumes "names_in_map st" and "\<not> has_key (TICKER_MAP st) (normalize_query db raw)"
    and "ms = filter (\<lambda>k. startswith k (normalize_query db raw)) (TICKER_NAMES st)" and "ms \<noteq> []"
  shows "\<exists>s. map_of (TICKER_MAP st) (first_shortest ms) = Some s
            \<and> resolve db st ratio yf raw = Inr (suffix_logic db yf s)"
proof -
  let ?a = "first_shortest ms"
  have "?a \<in> set ms" using assms(4) by (rule first_shortest_in)
  then have "?a \<in> set (TICKER_NAMES st)" using assms(3) by simp
  then have "?a \<in> set (keys (TICKER_MAP st))" using assms(1) by (auto simp: names_in_map_def)
  then obtain s where s: "map_of (TICKER_MAP st) ?a = Some s" "getitem (TICKER_MAP st) ?a = Inr s"
    using getitem_key by blast
  have "match_alias (TICKER_MAP st) (TICKER_NAMES st) ratio (normalize_query db raw) = Inr s"
    using match_alias_prefix [OF assms(2,3,4)] s(2) by simp
  then have "resolve db st ratio yf raw = Inr (suffix_logic db yf s)"
    by (simp add: resolve_def)
  with s(1) show ?thesis by blast
qed

text \<open>
  Claim C3, as the code has it. When the normalised query is not a key but is a prefix of
  some alias of the index, the alias chosen is the first one, in index order, among the
  matching aliases of minimal length, and the result is that alias's mapped symbol passed
  through the suffix logic (so the mapped symbol itself when it carries a market marker).
\<close>

theorem prefix_match_shortest:
  assumes "reachable db st" and "q = normalize_query db raw"
    and "\<not> has_key (TICKER_MAP st) q"
    and "ms = filter (\<lambda>k. startswith k q) (TICKER_NAMES st)" and "ms \<noteq> []"
  shows "\<exists>a s. a = first_shortest ms
           \<and> (\<exists>i < length ms. a = ms ! i
                 \<and> (\<forall>j < length ms. length a \<le> length (ms ! j))
                 \<and> (\<forall>j < i. length a < length (ms ! j)))
           \<and> map_of (TICKER_MAP st) a = Some s
           \<and> resolve db st ratio yf raw = Inr (suffix_logic db yf s)
           \<and> (has_marker s \<longrightarrow> resolve db st ratio yf raw = Inr (s, []))"
proof -
  let ?a = "first_shortest ms"
  have inv: "names_in_map st" using assms(1) by (rule reachable_names_in_map)
  from resolve_prefix [OF inv assms(3) [unfolded assms(2)] assms(4) [unfolded assms(2)] assms(5)]
  obtain s where s: "map_of (TICKER_MAP st) ?a = Some s"
    and r: "resolve db st ratio yf raw = Inr (suffix_logic db yf s)" by blast
  from first_shortest_spec [OF assms(5)] obtain i where "i < length ms" "?a = ms ! i"
    "\<forall>j < length ms. length (ms ! i) \<le> length (ms ! j)"
    "\<forall>j < i. length (ms ! i) < length (ms ! j)" by blast
  then have "\<exists>i < length ms. ?a = ms ! i
                 \<and> (\<forall>j < length ms. length ?a \<le> length (ms ! j))
                 \<and> (\<forall>j < i. length ?a < length (ms ! j))" by auto
  with s r show ?thesis by (auto simp: suffix_logic_marker)
qed

theorem prefix_match_shortest_witness:
  "reachable latin1_data initial_state
   \<and> \<not> has_key (TICKER_MAP initial_state) (normalize_query latin1_data (lit ''s''))
   \<and> filter (\<lambda>k. startswith k (normalize_query latin1_data (lit ''s''))) (TICKER_NAMES initial_state)
       = [lit ''SOLANA'', lit ''SOL'', lit ''SHIBA'', lit ''SHIB'', lit ''SBI'', lit ''STATE BANK'', lit ''SUN PHARMA'']
   \<and> first_shortest [lit ''SOLANA'', lit ''SOL'', lit ''SHIBA'', lit ''SHIB'', lit ''SBI'', lit ''STATE BANK'', lit ''SUN PHARMA'']
       = lit ''SOL''
   \<and> map_of (TICKER_MAP initial_state) (lit ''SOL'') = Some (lit ''SOL-USD'')
   \<and> resolve latin1_data initial_state (scores ''S'' []) provider_down (lit ''s'') = Inr (lit ''SOL-USD'', [])"
proof -
  let ?ms = "[lit ''SOLANA'', lit ''SOL'', lit ''SHIBA'', lit ''SHIB'', lit ''SBI'', lit ''STATE BANK'', lit ''SUN PHARMA'']"
  have r: "reachable latin1_data initial_state" by (rule reachable_initial)
  have h1: "\<not> has_key (TICKER_MAP initial_state) (normalize_query latin1_data (lit ''s''))" by code_simp
  have h2: "filter (\<lambda>k. startswith k (normalize_query latin1_data (lit ''s''))) (TICKER_NAMES initial_state) = ?ms"
    by code_simp
  have h3: "?ms \<noteq> []" by simp
  have f: "first_shortest ?ms = lit ''SOL''" by code_simp
  have m: "map_of (TICKER_MAP initial_state) (lit ''SOL'') = Some (lit ''SOL-USD'')" by code_simp
  have k: "has_marker (lit ''SOL-USD'')" by code_simp
  from prefix_match_shortest [OF r refl h1 h2 [symmetric] h3, of "scores ''S'' []" provider_down]
  have "resolve latin1_data initial_state (scores ''S'' []) provider_down (lit ''s'') = Inr (lit ''SOL-USD'', [])"
    using f m k by auto
  with r h1 h2 f m show ?thesis by blast
qed

text \<open>
  The claim as written, that the mapped symbol of the shortest alias is returned, fails for
  \<^verbatim>\<open>app\<close> when the quote provider cannot be reached: the only alias with that prefix is
  \<^verbatim>\<open>APPLE\<close>, which maps to \<^verbatim>\<open>AAPL\<close>, and the result is \<^verbatim>\<open>AAPL.NS\<close>.
\<close>

theorem prefix_match_counterexample:
  "\<not> has_key (TICKER_MAP initial_state) (normalize_query latin1_data (lit ''app''))
   \<and> filter (\<lambda>k. startswith k (normalize_query latin1_data (lit ''app''))) (TICKER_NAMES initial_state) = [lit ''APPLE'']
   \<and> map_of (TICKER_MAP initial_state) (lit ''APPLE'') = Some (lit ''AAPL'')
   \<and> resolve latin1_data initial_state (scores ''APP'' []) provider_down (lit ''app'') = Inr (lit ''AAPL.NS'', [lit ''AAPL''])"
  by code_simp

section \<open>Empty and blank queries\<close>

lemma upper_blank:
  assumes "case_mapping_ok db" and "\<forall>c \<in> set raw. isspace c"
  shows "upper db raw = raw"
proof -
  have "\<forall>c \<in> set raw. uppercase db c = [c]"
    using assms by (simp add: case_mapping_ok_def)
  then show ?thesis unfolding upper_def by (induction raw) simp_all
qed

lemma normalize_query_blank:
  assumes "case_mapping_ok db" and "\<forall>c \<in> set raw. isspace c"
  shows "normalize_query db raw = []"
proof -
  have u: "upper db raw = raw" using assms by (rule upper_blank)
  have d: "dropWhile isspace raw = []" using assms(2) by simp
  have "strip raw = []" unfolding strip_def d by simp
  with u show ?thesis by (simp only: normalize_query_def)
qed

lemma reachable_csv_reachable: "reachable_csv db st \<Longrightarrow> reachable db st"
  by (induction rule: reachable_csv.induct) (auto intro: reachable.intros)

lemma reachable_names_nonempty: "reachable db st \<Longrightarrow> TICKER_NAMES st \<noteq> []"
proof (induction rule: reachable.induct)
  case (reachable_initial db)
  show ?case by code_simp
next
  case (reachable_load db st resp)
  have inv: "names_in_map st" using reachable_load.hyps by (rule reachable_names_in_map)
  show ?case
  proof (cases resp)
    case RequestRaises
    with reachable_load.IH show ?thesis by (simp add: load_ticker_map_def)
  next
    case (Response code frame)
    show ?thesis
    proof (cases frame)
      case None
      with Response reachable_load.IH show ?thesis by (simp add: load_ticker_map_def)
    next
      case (Some rows)
      obtain d e where r: "add_rows db (TICKER_MAP st) rows = (d, e)"
        by (cases "add_rows db (TICKER_MAP st) rows")
      have "set (TICKER_NAMES st) \<subseteq> set (keys d)"
        using add_rows_keys [of "TICKER_MAP st" db rows] r inv by (auto simp: names_in_map_def)
      with reachable_load.IH have "keys d \<noteq> []" by (cases "TICKER_NAMES st") auto
      with Response Some r reachable_load.IH show ?thesis
        by (cases e) (auto simp: load_ticker_map_def)
    qed
  qed
qed

text \<open>The empty string is never an alias: no write of the build has an empty key.\<close>

lemma upper_nonempty: "case_mapping_ok db \<Longrightarrow> s \<noteq> [] \<Longrightarrow> upper db s \<noteq> []"
  by (cases s) (auto simp: upper_def case_mapping_ok_def)

lemma add_row_no_empty_key:
  assumes "case_mapping_ok db" and "cell_ok (SYMBOL r)" and "cell_ok (NAME_OF_COMPANY r)"
    and "[] \<notin> set (keys d)"
  shows "[] \<notin> set (keys (fst (add_row db d r)))"
proof (cases "NAME_OF_COMPANY r")
  case NaN
  with assms(4) show ?thesis by (simp add: add_row_def)
next
  case n: (Str n)
  show ?thesis
  proof (cases "SYMBOL r")
    case NaN
    with n assms(4) show ?thesis by (simp add: add_row_def)
  next
    case s: (Str s)
    from assms(1,2,3) n s have "upper db s \<noteq> []" "upper db n \<noteq> []"
      by (simp_all add: upper_nonempty)
    with n s assms(4) show ?thesis
      by (auto simp: add_row_def Let_def keys_setitem split: list.splits)
  qed
qed

lemma add_rows_no_empty_key:
  assumes "case_mapping_ok db"
    and "list_all (\<lambda>r. cell_ok (SYMBOL r) \<and> cell_ok (NAME_OF_COMPANY r)) rows"
    and "[] \<notin> set (keys d)"
  shows "[] \<notin> set (keys (fst (add_rows db d rows)))"
using assms(2,3) proof (induction rows arbitrary: d)
  case Nil
  then show ?case by simp
next
  case (Cons r rows)
  obtain d' e where r: "add_row db d r = (d', e)" by (cases "add_row db d r")
  have "[] \<notin> set (keys d')"
    using add_row_no_empty_key [OF assms(1), of r d] Cons.prems r by simp
  then have "[] \<notin> set (keys (fst (add_rows db d' rows)))"
    using Cons.IH Cons.prems(1) by simp
  with r \<open>[] \<notin> set (keys d')\<close> show ?case by (cases e) auto
qed

lemma reachable_csv_no_empty_key:
  assumes "reachable_csv db st" and "case_mapping_ok db"
  shows "\<not> has_key (TICKER_MAP st) []"
using assms proof (induction rule: reachable_csv.induct)
  case (reachable_csv_initial db')
  show ?case by code_simp
next
  case (reachable_csv_load db' st resp)
  then have k: "[] \<notin> set (keys (TICKER_MAP st))" by (simp add: has_key_def)
  show ?case
  proof (cases resp)
    case RequestRaises
    with k show ?thesis by (simp add: load_ticker_map_def has_key_def)
  next
    case (Response code frame)
    show ?thesis
    proof (cases frame)
      case None
      with Response k show ?thesis by (simp add: load_ticker_map_def has_key_def)
    next
      case (Some rows)
      obtain d e where r: "add_rows db' (TICKER_MAP st) rows = (d, e)"
        by (cases "add_rows db' (TICKER_MAP st) rows")
      have "list_all (\<lambda>r. cell_ok (SYMBOL r) \<and> cell_ok (NAME_OF_COMPANY r)) rows"
        using reachable_csv_load.hyps(2) Response Some by simp
      from add_rows_no_empty_key [OF _ this k, of db'] reachable_csv_load.prems r
      have "[] \<notin> set (keys d)" by simp
      with Response Some r k show ?thesis
        by (cases e) (auto simp: load_ticker_map_def has_key_def)
    qed
  qed
qed

lemma startswith_empty: "startswith k []"
  by (simp add: startswith_def)

lemma case_mapping_ok_latin1: "case_mapping_ok latin1_data"
  by (auto simp: case_mapping_ok_def latin1_data_def isspace_def whitespace_def)

text \<open>
  Claim C10, as the code has it. An empty or all-whitespace input is not rejected. Its
  normalised form is the empty string, the prefix scan keeps the whole index, the alias
  chosen is the first of minimal length in the index, and the result is that alias's mapped
  symbol passed through the suffix logic. This holds for every kind of Unicode whitespace,
  in every state reached through loads of frames as \<^verbatim>\<open>pd.read_csv\<close> gives them.
\<close>

theorem blank_query_shortest_alias:
  assumes "reachable_csv db st" and "case_mapping_ok db" and "\<forall>c \<in> set raw. isspace c"
  shows "normalize_query db raw = []
       \<and> filter (\<lambda>k. startswith k (normalize_query db raw)) (TICKER_NAMES st) = TICKER_NAMES st
       \<and> (\<exists>s. map_of (TICKER_MAP st) (first_shortest (TICKER_NAMES st)) = Some s
              \<and> resolve db st ratio yf raw = Inr (suffix_logic db yf s)
              \<and> (has_marker s \<longrightarrow> resolve db st ratio yf raw = Inr (s, [])))"
proof -
  have n: "normalize_query db raw = []" using assms(2,3) by (rule normalize_query_blank)
  have f: "filter (\<lambda>k. startswith k []) (TICKER_NAMES st) = TICKER_NAMES st"
    by (simp add: startswith_empty)
  have re: "reachable db st" using assms(1) by (rule reachable_csv_reachable)
  have ne: "TICKER_NAMES st \<noteq> []" using re by (rule reachable_names_nonempty)
  have inv: "names_in_map st" using re by (rule reachable_names_in_map)
  have "\<not> has_key (TICKER_MAP st) []" using assms(1,2) by (rule reachable_csv_no_empty_key)
  then have k: "\<not> has_key (TICKER_MAP st) (normalize_query db raw)" using n by simp
  have m: "TICKER_NAMES st = filter (\<lambda>k. startswith k (normalize_query db raw)) (TICKER_NAMES st)"
    using f n by simp
  from resolve_prefix [OF inv k m ne]
  obtain s where "map_of (TICKER_MAP st) (first_shortest (TICKER_NAMES st)) = Some s"
    "resolve db st ratio yf raw = Inr (suffix_logic db yf s)" by blast
  with n f show ?thesis by (auto simp: suffix_logic_marker)
qed

theorem blank_query_shortest_alias_witness:
  "reachable_csv latin1_data initial_state
   \<and> case_mapping_ok latin1_data
   \<and> isspace 0x20 \<and> isspace 0x09 \<and> isspace 0xA0 \<and> isspace 0x3000
   \<and> normalize_query latin1_data [0x20, 0x09, 0xA0, 0x3000] = []
   \<and> first_shortest (TICKER_NAMES initial_state) = lit ''AMD''
   \<and> map_of (TICKER_MAP initial_state) (lit ''AMD'') = Some (lit ''AMD'')
   \<and> resolve latin1_data initial_state (scores [] []) provider_priced [0x20, 0x09, 0xA0, 0x3000]
       = Inr (lit ''AMD'', [lit ''AMD''])"
proof -
  have r: "reachable_csv latin1_data initial_state" by (rule reachable_csv_initial)
  have c: "case_mapping_ok latin1_data" by (rule case_mapping_ok_latin1)
  have s1: "isspace 0x20" and s2: "isspace 0x09" and s3: "isspace 0xA0" and s4: "isspace 0x3000"
    by code_simp+
  then have h1: "\<forall>c \<in> set [0x20, 0x09, 0xA0, 0x3000]. isspace c" by simp
  have f: "first_shortest (TICKER_NAMES initial_state) = lit ''AMD''" by code_simp
  have m: "map_of (TICKER_MAP initial_state) (lit ''AMD'') = Some (lit ''AMD'')" by code_simp
  have v: "suffix_logic latin1_data provider_priced (lit ''AMD'') = (lit ''AMD'', [lit ''AMD''])"
    by code_simp
  from blank_query_shortest_alias [OF r c h1, of "scores [] []" provider_priced] f m v
  have "normalize_query latin1_data [0x20, 0x09, 0xA0, 0x3000] = []
      \<and> resolve latin1_data initial_state (scores [] []) provider_priced [0x20, 0x09, 0xA0, 0x3000]
          = Inr (lit ''AMD'', [lit ''AMD''])" by auto
  with r c s1 s2 s3 s4 f m show ?thesis by blast
qed

text \<open>
  The claim as written, that the mapped symbol of the shortest alias is returned, fails for
  a single space when the quote provider cannot be reached: the shortest alias of the static
  index is \<^verbatim>\<open>AMD\<close>, which maps to \<^verbatim>\<open>AMD\<close>, and the result is \<^verbatim>\<open>AMD.NS\<close>.
\<close>

theorem blank_query_counterexample:
  "normalize_query latin1_data (lit '' '') = []
   \<and> first_shortest (TICKER_NAMES initial_state) = lit ''AMD''
   \<and> map_of (TICKER_MAP initial_state) (lit ''AMD'') = Some (lit ''AMD'')
   \<and> resolve latin1_data initial_state (scores [] []) provider_down (lit '' '')
       = Inr (lit ''AMD.NS'', [lit ''AMD''])"
  by code_simp

section \<open>The best close match\<close>

lemma fold_max_Max: "fold (\<lambda>y m. if m < y then y else m) xs x = Max (set (x # xs))"
proof -
  have "(\<lambda>y m. if m < y then y else m) = (max :: 'a \<Rightarrow> 'a \<Rightarrow> 'a)"
    by (auto simp: fun_eq_iff max_def)
  then show ?thesis by (simp only: Max.set_eq_fold)
qed

lemma py_max_Max: "xs \<noteq> [] \<Longrightarrow> py_max xs = Some (Max (set xs))"
proof (cases xs)
  case Nil
  assume "xs \<noteq> []"
  with Nil show ?thesis by simp
next
  case (Cons x ys)
  have "py_max (x # ys) = Some (Max (set (x # ys)))"
    by (simp only: py_max.simps fold_max_Max)
  with Cons show ?thesis by simp
qed

lemma best_close_match:
  assumes "\<exists>x \<in> set ps. c \<le> ratio x w"
  shows "\<exists>a. get_close_matches ratio w ps 1 c = [a] \<and> a \<in> set ps \<and> c \<le> ratio a w
           \<and> (\<forall>b \<in> set ps. c \<le> ratio b w \<longrightarrow>
                  ratio b w < ratio a w \<or> (ratio b w = ratio a w \<and> b \<le> a))"
proof -
  let ?res = "map (\<lambda>x. (ratio x w, x)) (filter (\<lambda>x. c \<le> ratio x w) ps)"
  define m where "m = Max (set ?res)"
  from assms have ne: "?res \<noteq> []" by (simp add: filter_empty_conv)
  then have "set ?res \<noteq> {}" by (metis set_empty)
  moreover have "finite (set ?res)" by (rule finite_set)
  ultimately have "m \<in> set ?res" unfolding m_def by (rule Max_in [rotated])
  then obtain a where a: "a \<in> set ps" "c \<le> ratio a w" "m = (ratio a w, a)" by auto
  have "\<forall>b \<in> set ps. c \<le> ratio b w \<longrightarrow> (ratio b w, b) \<le> (ratio a w, a)"
  proof (intro ballI impI)
    fix b assume "b \<in> set ps" "c \<le> ratio b w"
    then have "(ratio b w, b) \<in> set ?res" by auto
    with finite_set have "(ratio b w, b) \<le> m" unfolding m_def by (rule Max_ge)
    with a(3) show "(ratio b w, b) \<le> (ratio a w, a)" by simp
  qed
  then have best: "\<forall>b \<in> set ps. c \<le> ratio b w \<longrightarrow>
      ratio b w < ratio a w \<or> (ratio b w = ratio a w \<and> b \<le> a)"
    by (auto simp: less_eq_prod_def)
  have "get_close_matches ratio w ps 1 c = [a]"
    using py_max_Max [OF ne] a(3) by (simp add: get_close_matches_def nlargest_def m_def)
  with a(1,2) best show ?thesis by blast
qed

lemma no_close_match:
  assumes "\<not> (\<exists>x \<in> set ps. c \<le> ratio x w)"
  shows "get_close_matches ratio w ps n c = []"
proof -
  have "\<And>a. a \<in> set (get_close_matches ratio w ps n c) \<Longrightarrow> False"
  proof -
    fix a assume "a \<in> set (get_close_matches ratio w ps n c)"
    with get_close_matches_subset [of ratio w ps n c] have "a \<in> set ps \<and> c \<le> ratio a w"
      by auto
    with assms show False by auto
  qed
  then show ?thesis by (cases "get_close_matches ratio w ps n c") auto
qed

lemma match_alias_no_fuzzy:
  assumes "has_key d q \<or> filter (\<lambda>k. startswith k q) names \<noteq> [] \<or> length q \<le> 2"
  shows "match_alias d names ratio q = match_alias d names ratio' q"
  using assms by (auto simp: match_alias_def Let_def)

text \<open>
  Claim C6, as the code has it. Let \<open>q\<close> be the normalised query. (1) When \<open>q\<close> is a key, or
  is a prefix of some alias of the index, or has at most 2 characters, the result does not
  depend on the similarity scores: closest matching is not consulted. (2) In particular an
  unmatched query of at most 2 characters goes to the suffix logic as it is. (3) When \<open>q\<close>
  has no exact and no prefix match, is longer than 2 characters and some alias scores at
  least the cutoff 0.5, the alias chosen has the highest score, and among aliases with that
  score it is the greatest in string order (the pairs of score and alias are compared as
  tuples); the result is its mapped symbol passed through the suffix logic. (4) When no
  alias reaches the cutoff, the query goes to the suffix logic as it is.
\<close>

theorem fuzzy_stage:
  assumes "reachable db st" and "q = normalize_query db raw"
    and "d = TICKER_MAP st" and "names = TICKER_NAMES st"
    and "ms = filter (\<lambda>k. startswith k q) names"
  shows "(has_key d q \<or> ms \<noteq> [] \<or> length q \<le> 2 \<longrightarrow>
            resolve db st ratio yf raw = resolve db st ratio' yf raw)
       \<and> (\<not> has_key d q \<and> ms = [] \<and> length q \<le> 2 \<longrightarrow>
            resolve db st ratio yf raw = Inr (suffix_logic db yf q))
       \<and> (\<not> has_key d q \<and> ms = [] \<and> length q > 2 \<and> (\<exists>x \<in> set names. 1/2 \<le> ratio x q) \<longrightarrow>
            (\<exists>a s. a \<in> set names \<and> 1/2 \<le> ratio a q
               \<and> (\<forall>b \<in> set names. 1/2 \<le> ratio b q \<longrightarrow>
                      ratio b q < ratio a q \<or> (ratio b q = ratio a q \<and> b \<le> a))
               \<and> map_of d a = Some s
               \<and> resolve db st ratio yf raw = Inr (suffix_logic db yf s)))
       \<and> (\<not> has_key d q \<and> ms = [] \<and> length q > 2 \<and> \<not> (\<exists>x \<in> set names. 1/2 \<le> ratio x q) \<longrightarrow>
            resolve db st ratio yf raw = Inr (suffix_logic db yf q))"
proof (intro conjI impI)
  assume "has_key d q \<or> ms \<noteq> [] \<or> length q \<le> 2"
  then have "match_alias d names ratio q = match_alias d names ratio' q"
    unfolding assms(5) by (rule match_alias_no_fuzzy)
  then show "resolve db st ratio yf raw = resolve db st ratio' yf raw"
    using assms(2,3,4) by (simp add: resolve_def)
next
  assume "\<not> has_key d q \<and> ms = [] \<and> length q \<le> 2"
  then have "match_alias d names ratio q = Inr q"
    using assms(5) by (simp add: match_alias_unmatched)
  then show "resolve db st ratio yf raw = Inr (suffix_logic db yf q)"
    using assms(2,3,4) by (simp add: resolve_def)
next
  assume h: "\<not> has_key d q \<and> ms = [] \<and> length q > 2 \<and> (\<exists>x \<in> set names. 1/2 \<le> ratio x q)"
  then have "\<exists>x \<in> set names. 1/2 \<le> ratio x q" by blast
  from best_close_match [of names "1/2" ratio q, OF this] obtain a where
    a: "get_close_matches ratio q names 1 (1/2) = [a]" "a \<in> set names" "1/2 \<le> ratio a q"
      "\<forall>b \<in> set names. 1/2 \<le> ratio b q \<longrightarrow>
          ratio b q < ratio a q \<or> (ratio b q = ratio a q \<and> b \<le> a)" by blast
  have "names_in_map st" using assms(1) by (rule reachable_names_in_map)
  with a(2) have "a \<in> set (keys d)" using assms(3,4) by (auto simp: names_in_map_def)
  then obtain s where s: "map_of d a = Some s" "getitem d a = Inr s"
    using getitem_key by blast
  have "match_alias d names ratio q = Inr s"
    using h assms(5) a(1) s(2) by (simp add: match_alias_def)
  then have "resolve db st ratio yf raw = Inr (suffix_logic db yf s)"
    using assms(2,3,4) by (simp add: resolve_def)
  with a(2,3,4) s(1)
  show "\<exists>a s. a \<in> set names \<and> 1/2 \<le> ratio a q
               \<and> (\<forall>b \<in> set names. 1/2 \<le> ratio b q \<longrightarrow>
                      ratio b q < ratio a q \<or> (ratio b q = ratio a q \<and> b \<le> a))
               \<and> map_of d a = Some s
               \<and> resolve db st ratio yf raw = Inr (suffix_logic db yf s)" by blast
next
  assume h: "\<not> has_key d q \<and> ms = [] \<and> length q > 2 \<and> \<not> (\<exists>x \<in> set names. 1/2 \<le> ratio x q)"
  then have "get_close_matches ratio q names 1 (1/2) = []" by (simp add: no_close_match)
  with h have "match_alias d names ratio q = Inr q"
    using assms(5) by (simp add: match_alias_unmatched)
  then show "resolve db st ratio yf raw = Inr (suffix_logic db yf q)"
    using assms(2,3,4) by (simp add: resolve_def)
qed

theorem fuzzy_stage_witness:
  "reachable latin1_data initial_state
   \<and> \<not> has_key (TICKER_MAP initial_state) (normalize_query latin1_data (lit ''amz''))
   \<and> filter (\<lambda>k. startswith k (normalize_query latin1_data (lit ''amz''))) (TICKER_NAMES initial_state) = []
   \<and> length (normalize_query latin1_data (lit ''amz'')) > 2
   \<and> (\<exists>x \<in> set (TICKER_NAMES initial_state).
         1/2 \<le> scores ''AMZ'' scores_AMZ x (normalize_query latin1_data (lit ''amz'')))
   \<and> (\<exists>a s. a \<in> set (TICKER_NAMES initial_state)
         \<and> map_of (TICKER_MAP initial_state) a = Some s
         \<and> resolve latin1_data initial_state (scores ''AMZ'' scores_AMZ) provider_priced (lit ''amz'')
             = Inr (suffix_logic latin1_data provider_priced s))
   \<and> resolve latin1_data initial_state (scores ''AMZ'' scores_AMZ) provider_priced (lit ''amz'')
       = Inr (lit ''AMD'', [lit ''AMD''])"
proof -
  let ?q = "normalize_query latin1_data (lit ''amz'')"
  let ?r = "scores ''AMZ'' scores_AMZ"
  have r: "reachable latin1_data initial_state" by (rule reachable_initial)
  have h1: "\<not> has_key (TICKER_MAP initial_state) ?q" by code_simp
  have h2: "filter (\<lambda>k. startswith k ?q) (TICKER_NAMES initial_state) = []" by code_simp
  have h3: "length ?q > 2" by code_simp
  have "(lit ''AMD'') \<in> set (TICKER_NAMES initial_state) \<and> 1/2 \<le> ?r (lit ''AMD'') ?q" by code_simp
  then have h4: "\<exists>x \<in> set (TICKER_NAMES initial_state). 1/2 \<le> ?r x ?q" by blast
  from fuzzy_stage [where st = initial_state and raw = "(lit ''amz'')" and ratio = ?r
      and yf = provider_priced and ratio' = ?r, OF r refl refl refl refl] h1 h2 h3 h4
  have e: "\<exists>a s. a \<in> set (TICKER_NAMES initial_state)
         \<and> map_of (TICKER_MAP initial_state) a = Some s
         \<and> resolve latin1_data initial_state ?r provider_priced (lit ''amz'') = Inr (suffix_logic latin1_data provider_priced s)"
    by blast
  have v: "resolve latin1_data initial_state ?r provider_priced (lit ''amz'') = Inr (lit ''AMD'', [lit ''AMD''])"
    by code_simp
  from r h1 h2 h3 h4 e v show ?thesis by blast
qed

text \<open>
  The claim as written fails for \<^verbatim>\<open>amz\<close> on the static map. The aliases at or above the
  cutoff are \<^verbatim>\<open>AMAZON\<close> and \<^verbatim>\<open>AMD\<close>, both at 2/3, and \<^verbatim>\<open>PAYTM\<close> at 1/2. The first seen
  of the two best is \<^verbatim>\<open>AMAZON\<close> (symbol \<^verbatim>\<open>AMZN\<close>), but the tuple (2/3, AMD) is the greater
  one, so \<^verbatim>\<open>AMD\<close> is chosen; and when the quote provider cannot be reached the result is
  \<^verbatim>\<open>AMD.NS\<close>, which is the mapped symbol of no alias.
\<close>

theorem fuzzy_stage_counterexample:
  "filter (\<lambda>x. 1/2 \<le> scores ''AMZ'' scores_AMZ x (lit ''AMZ'')) (TICKER_NAMES initial_state)
     = [lit ''AMAZON'', lit ''AMD'', lit ''PAYTM'']
   \<and> scores ''AMZ'' scores_AMZ (lit ''AMAZON'') (lit ''AMZ'') = 2/3
   \<and> scores ''AMZ'' scores_AMZ (lit ''AMD'') (lit ''AMZ'') = 2/3
   \<and> scores ''AMZ'' scores_AMZ (lit ''PAYTM'') (lit ''AMZ'') = 1/2
   \<and> map_of (TICKER_MAP initial_state) (lit ''AMAZON'') = Some (lit ''AMZN'')
   \<and> map_of (TICKER_MAP initial_state) (lit ''AMD'') = Some (lit ''AMD'')
   \<and> resolve latin1_data initial_state (scores ''AMZ'' scores_AMZ) provider_priced (lit ''amz'')
       = Inr (lit ''AMD'', [lit ''AMD''])
   \<and> resolve latin1_data initial_state (scores ''AMZ'' scores_AMZ) provider_down (lit ''amz'')
       = Inr (lit ''AMD.NS'', [lit ''AMD''])"
  by code_simp

section \<open>Building the directory\<close>




lemma load_ticker_map_skip:
  assumes "length (TICKER_MAP st) > length STATIC_TICKER_MAP"
  shows "load_ticker_map db resp st = st"
  using assms by (simp add: load_ticker_map_def)




text \<open>
  After such a partial build the directory is longer than the static map, so the guard at
  the top of \<^verbatim>\<open>load_ticker_map\<close> skips every later load and the index is not rebuilt.
\<close>

lemma stale_index_persists:
  "load_ticker_map latin1_data resp (load_ticker_map latin1_data (Response 200 (Some listing_bad_name)) initial_state)
     = load_ticker_map latin1_data (Response 200 (Some listing_bad_name)) initial_state"
proof (rule load_ticker_map_skip)
  show "length STATIC_TICKER_MAP
      < length (TICKER_MAP (load_ticker_map latin1_data (Response 200 (Some listing_bad_name)) initial_state))"
    by code_simp
qed

section \<open>Collisions while building\<close>

lemma distinct_add_row: "distinct (keys d) \<Longrightarrow> distinct (keys (fst (add_row db d r)))"
  by (auto simp: add_row_def Let_def distinct_setitem split: sum.splits list.splits)

lemma distinct_add_rows: "distinct (keys d) \<Longrightarrow> distinct (keys (fst (add_rows db d rs)))"
proof (induction rs arbitrary: d)
  case Nil
  then show ?case by simp
next
  case (Cons r rs)
  obtain d' e where r: "add_row db d r = (d', e)" by (cases "add_row db d r")
  have "distinct (keys d')" using distinct_add_row [OF Cons.prems, of db r] r by simp
  then have "distinct (keys (fst (add_rows db d' rs)))" by (rule Cons.IH)
  with r \<open>distinct (keys d')\<close> show ?case by (cases e) auto
qed

lemma add_row_writes:
  assumes "add_row db d r = (d', None)" and "SYMBOL r = Str s" and "NAME_OF_COMPANY r = Str n"
  shows "map_of d' (upper db s) = Some (s @ lit ''.NS'') \<and> map_of d' (upper db n) = Some (s @ lit ''.NS'')"
proof -
  let ?sym = "s @ lit ''.NS''"
  let ?d2 = "setitem (setitem d (upper db s) ?sym) (upper db n) ?sym"
  have m2: "map_of ?d2 (upper db s) = Some ?sym \<and> map_of ?d2 (upper db n) = Some ?sym"
    by (simp add: map_of_setitem)
  show ?thesis
  proof (cases "split (upper db n)")
    case Nil
    with assms show ?thesis by (simp add: add_row_def Let_def)
  next
    case (Cons w ws)
    show ?thesis
    proof (cases "length w > 2 \<and> \<not> has_key ?d2 w")
      case False
      with assms Cons have "d' = ?d2" by (auto simp: add_row_def Let_def)
      with m2 show ?thesis by simp
    next
      case True
      with assms Cons have d': "d' = setitem ?d2 w ?sym" by (auto simp: add_row_def Let_def)
      from True have "map_of ?d2 w = None" by (simp add: has_key_map_of)
      with m2 have "w \<noteq> upper db s" "w \<noteq> upper db n" by auto
      with m2 d' show ?thesis by (simp add: map_of_setitem)
    qed
  qed
qed

lemma add_row_keeps:
  assumes "add_row db d r = (d', e)" and "map_of d k = Some v"
    and "cell_upper db (SYMBOL r) \<noteq> Inr k" and "cell_upper db (NAME_OF_COMPANY r) \<noteq> Inr k"
  shows "map_of d' k = Some v"
proof (cases "NAME_OF_COMPANY r")
  case NaN
  with assms show ?thesis by (simp add: add_row_def)
next
  case n: (Str n)
  show ?thesis
  proof (cases "SYMBOL r")
    case NaN
    with n assms show ?thesis by (simp add: add_row_def)
  next
    case s: (Str s)
    let ?sym = "s @ lit ''.NS''"
    let ?d2 = "setitem (setitem d (upper db s) ?sym) (upper db n) ?sym"
    from assms(3,4) n s have ne: "upper db s \<noteq> k" "upper db n \<noteq> k" by auto
    with assms(2) have m2: "map_of ?d2 k = Some v" by (simp add: map_of_setitem)
    show ?thesis
    proof (cases "split (upper db n)")
      case Nil
      with assms(1) n s have "d' = ?d2" by (auto simp: add_row_def Let_def)
      with m2 show ?thesis by simp
    next
      case (Cons w ws)
      show ?thesis
      proof (cases "length w > 2 \<and> \<not> has_key ?d2 w")
        case False
        with assms(1) n s Cons have "d' = ?d2" by (auto simp: add_row_def Let_def)
        with m2 show ?thesis by simp
      next
        case True
        with assms(1) n s Cons have d': "d' = setitem ?d2 w ?sym"
          by (auto simp: add_row_def Let_def)
        from True have "map_of ?d2 w = None" by (simp add: has_key_map_of)
        with m2 have "w \<noteq> k" by auto
        with m2 d' show ?thesis by (simp add: map_of_setitem)
      qed
    qed
  qed
qed

lemma add_rows_keeps:
  assumes "add_rows db d rs = (d', e)" and "map_of d k = Some v"
    and "\<forall>r \<in> set rs. cell_upper db (SYMBOL r) \<noteq> Inr k \<and> cell_upper db (NAME_OF_COMPANY r) \<noteq> Inr k"
  shows "map_of d' k = Some v"
using assms proof (induction rs arbitrary: d)
  case Nil
  then show ?case by simp
next
  case (Cons r rs)
  obtain d1 e1 where r: "add_row db d r = (d1, e1)" by (cases "add_row db d r")
  have k1: "map_of d1 k = Some v" using add_row_keeps [OF r Cons.prems(2)] Cons.prems(3) by simp
  show ?case
  proof (cases e1)
    case (Some x)
    with r Cons.prems(1) have "d' = d1" by simp
    with k1 show ?thesis by simp
  next
    case None
    with r Cons.prems(1) have "add_rows db d1 rs = (d', e)" by simp
    from Cons.IH [OF this k1] Cons.prems(3) show ?thesis by simp
  qed
qed

lemma add_rows_append:
  "add_rows db d (xs @ ys) =
     (case add_rows db d xs of (d1, None) \<Rightarrow> add_rows db d1 ys | (d1, Some e) \<Rightarrow> (d1, Some e))"
proof (induction xs arbitrary: d)
  case Nil
  show ?case by simp
next
  case (Cons x xs)
  obtain d1 e1 where r: "add_row db d x = (d1, e1)" by (cases "add_row db d x")
  show ?case using r Cons.IH [of d1] by (cases e1) auto
qed

lemma last_write_wins:
  assumes "add_rows db d (rs @ r # rs') = (d', None)"
    and "SYMBOL r = Str s" and "NAME_OF_COMPANY r = Str n" and "k = upper db s \<or> k = upper db n"
    and "\<forall>r' \<in> set rs'. cell_upper db (SYMBOL r') \<noteq> Inr k \<and> cell_upper db (NAME_OF_COMPANY r') \<noteq> Inr k"
  shows "map_of d' k = Some (s @ lit ''.NS'')"
proof -
  obtain d1 e1 where a: "add_rows db d rs = (d1, e1)" by (cases "add_rows db d rs")
  obtain d2 e2 where b: "add_row db d1 r = (d2, e2)" by (cases "add_row db d1 r")
  from assms(1) a have e1: "e1 = None" by (cases e1) (auto simp: add_rows_append)
  with assms(1) a b have e2: "e2 = None" by (cases e2) (auto simp: add_rows_append)
  with assms(1) a b e1 have c: "add_rows db d2 rs' = (d', None)" by (simp add: add_rows_append)
  from add_row_writes [OF b [unfolded e2] assms(2,3)] assms(4)
  have "map_of d2 k = Some (s @ lit ''.NS'')" by auto
  from add_rows_keeps [OF c this assms(5)] show ?thesis .
qed

lemma first_word_Some:
  assumes "first_word db r = Some w"
  shows "\<exists>n ws. NAME_OF_COMPANY r = Str n \<and> split (upper db n) = w # ws"
proof (cases "NAME_OF_COMPANY r")
  case NaN
  with assms show ?thesis by (simp add: first_word_def)
next
  case (Str n)
  with assms show ?thesis by (cases "split (upper db n)") (auto simp: first_word_def)
qed

lemma add_row_first_word:
  assumes "add_row db d r = (d', None)" and "SYMBOL r = Str s" and "first_word db r = Some w"
    and "map_of d w = None"
    and "cell_upper db (SYMBOL r) \<noteq> Inr w" and "cell_upper db (NAME_OF_COMPANY r) \<noteq> Inr w"
  shows "map_of d' w = (if length w > 2 then Some (s @ lit ''.NS'') else None)"
proof -
  from first_word_Some [OF assms(3)] obtain n ws where n: "NAME_OF_COMPANY r = Str n"
    and w: "split (upper db n) = w # ws" by blast
  let ?sym = "s @ lit ''.NS''"
  let ?d2 = "setitem (setitem d (upper db s) ?sym) (upper db n) ?sym"
  from assms(2,5,6) n have ne: "upper db s \<noteq> w" "upper db n \<noteq> w" by auto
  with assms(4) have m2: "map_of ?d2 w = None" by (simp add: map_of_setitem)
  then have nk: "\<not> has_key ?d2 w" by (simp add: has_key_map_of)
  show ?thesis
  proof (cases "length w > 2")
    case True
    with assms(1,2) n w nk have "d' = setitem ?d2 w ?sym" by (auto simp: add_row_def Let_def)
    with True show ?thesis by (simp add: map_of_setitem)
  next
    case False
    with assms(1,2) n w have "d' = ?d2" by (auto simp: add_row_def Let_def)
    with False m2 show ?thesis by simp
  qed
qed

lemma add_row_absent_kept:
  assumes "add_row db d r = (d', e)" and "map_of d k = None"
    and "cell_upper db (SYMBOL r) \<noteq> Inr k" and "cell_upper db (NAME_OF_COMPANY r) \<noteq> Inr k"
    and "length k \<le> 2 \<or> first_word db r \<noteq> Some k"
  shows "map_of d' k = None"
proof (cases "NAME_OF_COMPANY r")
  case NaN
  with assms show ?thesis by (simp add: add_row_def)
next
  case n: (Str n)
  show ?thesis
  proof (cases "SYMBOL r")
    case NaN
    with n assms show ?thesis by (simp add: add_row_def)
  next
    case s: (Str s)
    let ?sym = "s @ lit ''.NS''"
    let ?d2 = "setitem (setitem d (upper db s) ?sym) (upper db n) ?sym"
    from assms(3,4) n s have ne: "upper db s \<noteq> k" "upper db n \<noteq> k" by auto
    with assms(2) have m2: "map_of ?d2 k = None" by (simp add: map_of_setitem)
    show ?thesis
    proof (cases "split (upper db n)")
      case Nil
      with assms(1) n s have "d' = ?d2" by (auto simp: add_row_def Let_def)
      with m2 show ?thesis by simp
    next
      case (Cons w ws)
      with n have fw: "first_word db r = Some w" by (simp add: first_word_def)
      show ?thesis
      proof (cases "length w > 2 \<and> \<not> has_key ?d2 w")
        case False
        with assms(1) n s Cons have "d' = ?d2" by (auto simp: add_row_def Let_def)
        with m2 show ?thesis by simp
      next
        case True
        with assms(1) n s Cons have d': "d' = setitem ?d2 w ?sym"
          by (auto simp: add_row_def Let_def)
        from True fw assms(5) have "w \<noteq> k" by auto
        with m2 d' show ?thesis by (simp add: map_of_setitem)
      qed
    qed
  qed
qed

lemma add_rows_absent_kept:
  assumes "add_rows db d rs = (d', e)" and "map_of d k = None"
    and "\<forall>r \<in> set rs. cell_upper db (SYMBOL r) \<noteq> Inr k
                      \<and> cell_upper db (NAME_OF_COMPANY r) \<noteq> Inr k"
    and "length k \<le> 2 \<or> (\<forall>r \<in> set rs. first_word db r \<noteq> Some k)"
  shows "map_of d' k = None"
using assms proof (induction rs arbitrary: d)
  case Nil
  then show ?case by simp
next
  case (Cons r rs)
  obtain d1 e1 where r: "add_row db d r = (d1, e1)" by (cases "add_row db d r")
  have k1: "map_of d1 k = None"
    using add_row_absent_kept [OF r Cons.prems(2)] Cons.prems(3,4) by auto
  show ?case
  proof (cases e1)
    case (Some x)
    with r Cons.prems(1) have "d' = d1" by simp
    with k1 show ?thesis by simp
  next
    case None
    with r Cons.prems(1) have "add_rows db d1 rs = (d', e)" by simp
    from Cons.IH [OF this k1] Cons.prems(3,4) show ?thesis by auto
  qed
qed

lemma first_word_wins:
  assumes "add_rows db d (rs @ r # rs') = (d', None)"
    and "SYMBOL r = Str s" and "first_word db r = Some k" and "length k > 2"
    and "map_of d k = None"
    and "\<forall>r' \<in> set (rs @ r # rs'). cell_upper db (SYMBOL r') \<noteq> Inr k
                                    \<and> cell_upper db (NAME_OF_COMPANY r') \<noteq> Inr k"
    and "\<forall>r' \<in> set rs. first_word db r' \<noteq> Some k"
  shows "map_of d' k = Some (s @ lit ''.NS'')"
proof -
  obtain d1 e1 where a: "add_rows db d rs = (d1, e1)" by (cases "add_rows db d rs")
  obtain d2 e2 where b: "add_row db d1 r = (d2, e2)" by (cases "add_row db d1 r")
  from assms(1) a have e1: "e1 = None" by (cases e1) (auto simp: add_rows_append)
  with assms(1) a b have e2: "e2 = None" by (cases e2) (auto simp: add_rows_append)
  with assms(1) a b e1 have c: "add_rows db d2 rs' = (d', None)" by (simp add: add_rows_append)
  have "map_of d1 k = None"
    using add_rows_absent_kept [OF a assms(5)] assms(6,7) by auto
  from add_row_first_word [OF b [unfolded e2] assms(2,3) this] assms(4,6)
  have "map_of d2 k = Some (s @ lit ''.NS'')" by auto
  from add_rows_keeps [OF c this] assms(6) show ?thesis by auto
qed

text \<open>
  Claim C8, as the code has it. Keys stay unique through every write of the build, so an
  alias never maps to more than one symbol. For the two aliases a row always writes, its
  upper-cased symbol and its upper-cased company name, the last write wins: after a build
  that completes, such an alias maps to the symbol of the last row that has it as symbol or
  company name. An alias already present is changed only by a row that has it as symbol or
  company name. The first word of a company name is written only when it is longer than 2
  characters and not yet a key, so there the first write wins: an alias that no row has as
  symbol or company name and that was absent before the build maps to the symbol of the
  first row whose first word it is when it is longer than 2 characters, and stays absent
  when it has at most 2 characters or is no row's first word.
\<close>

theorem build_collisions:
  "(distinct (keys d) \<longrightarrow> distinct (keys (fst (add_rows db d rows))))
   \<and> (add_rows db d (rs @ r # rs') = (d', None)
        \<and> SYMBOL r = Str s \<and> NAME_OF_COMPANY r = Str n \<and> (k = upper db s \<or> k = upper db n)
        \<and> (\<forall>r' \<in> set rs'. cell_upper db (SYMBOL r') \<noteq> Inr k
                           \<and> cell_upper db (NAME_OF_COMPANY r') \<noteq> Inr k)
      \<longrightarrow> map_of d' k = Some (s @ lit ''.NS''))
   \<and> (add_rows db d rows = (d'', e) \<and> map_of d k = Some v
        \<and> (\<forall>r' \<in> set rows. cell_upper db (SYMBOL r') \<noteq> Inr k
                             \<and> cell_upper db (NAME_OF_COMPANY r') \<noteq> Inr k)
      \<longrightarrow> map_of d'' k = Some v)
   \<and> (add_rows db d (rs @ r # rs') = (d', None)
        \<and> SYMBOL r = Str s \<and> first_word db r = Some k \<and> length k > 2 \<and> map_of d k = None
        \<and> (\<forall>r' \<in> set (rs @ r # rs'). cell_upper db (SYMBOL r') \<noteq> Inr k
                                       \<and> cell_upper db (NAME_OF_COMPANY r') \<noteq> Inr k)
        \<and> (\<forall>r' \<in> set rs. first_word db r' \<noteq> Some k)
      \<longrightarrow> map_of d' k = Some (s @ lit ''.NS''))
   \<and> (add_rows db d rows = (d'', e) \<and> map_of d k = None
        \<and> (\<forall>r' \<in> set rows. cell_upper db (SYMBOL r') \<noteq> Inr k
                             \<and> cell_upper db (NAME_OF_COMPANY r') \<noteq> Inr k)
        \<and> (length k \<le> 2 \<or> (\<forall>r' \<in> set rows. first_word db r' \<noteq> Some k))
      \<longrightarrow> map_of d'' k = None)"
proof (intro conjI impI)
  assume "distinct (keys d)"
  then show "distinct (keys (fst (add_rows db d rows)))" by (rule distinct_add_rows)
next
  assume "add_rows db d (rs @ r # rs') = (d', None)
        \<and> SYMBOL r = Str s \<and> NAME_OF_COMPANY r = Str n \<and> (k = upper db s \<or> k = upper db n)
        \<and> (\<forall>r' \<in> set rs'. cell_upper db (SYMBOL r') \<noteq> Inr k
                           \<and> cell_upper db (NAME_OF_COMPANY r') \<noteq> Inr k)"
  then show "map_of d' k = Some (s @ lit ''.NS'')" using last_write_wins by blast
next
  assume "add_rows db d rows = (d'', e) \<and> map_of d k = Some v
        \<and> (\<forall>r' \<in> set rows. cell_upper db (SYMBOL r') \<noteq> Inr k
                             \<and> cell_upper db (NAME_OF_COMPANY r') \<noteq> Inr k)"
  then show "map_of d'' k = Some v" using add_rows_keeps by blast
next
  assume "add_rows db d (rs @ r # rs') = (d', None)
        \<and> SYMBOL r = Str s \<and> first_word db r = Some k \<and> length k > 2 \<and> map_of d k = None
        \<and> (\<forall>r' \<in> set (rs @ r # rs'). cell_upper db (SYMBOL r') \<noteq> Inr k
                                       \<and> cell_upper db (NAME_OF_COMPANY r') \<noteq> Inr k)
        \<and> (\<forall>r' \<in> set rs. first_word db r' \<noteq> Some k)"
  then show "map_of d' k = Some (s @ lit ''.NS'')" using first_word_wins by blast
next
  assume "add_rows db d rows = (d'', e) \<and> map_of d k = None
        \<and> (\<forall>r' \<in> set rows. cell_upper db (SYMBOL r') \<noteq> Inr k
                             \<and> cell_upper db (NAME_OF_COMPANY r') \<noteq> Inr k)
        \<and> (length k \<le> 2 \<or> (\<forall>r' \<in> set rows. first_word db r' \<noteq> Some k))"
  then show "map_of d'' k = None" using add_rows_absent_kept by blast
qed

theorem build_collisions_witness:
  "distinct (keys STATIC_TICKER_MAP)
   \<and> distinct (keys (fst (add_rows latin1_data STATIC_TICKER_MAP listing_tata)))
   \<and> map_of STATIC_TICKER_MAP (lit ''SOL'') = Some (lit ''SOL-USD'')
   \<and> snd (add_rows latin1_data STATIC_TICKER_MAP listing_sol) = None
   \<and> map_of (fst (add_rows latin1_data STATIC_TICKER_MAP listing_sol)) (lit ''SOL'')
       = Some (lit ''SOL.NS'')
   \<and> map_of (fst (add_rows latin1_data STATIC_TICKER_MAP listing_sol)) (lit ''BTC'')
       = Some (lit ''BTC-USD'')
   \<and> map_of STATIC_TICKER_MAP (lit ''TATA'') = None
   \<and> snd (add_rows latin1_data STATIC_TICKER_MAP listing_tata) = None
   \<and> first_word latin1_data (hd listing_tata) = Some (lit ''TATA'')
   \<and> first_word latin1_data (hd (tl listing_tata)) = Some (lit ''TATA'')
   \<and> map_of (fst (add_rows latin1_data STATIC_TICKER_MAP listing_tata)) (lit ''TATA'')
       = Some (lit ''TATAMOTORS.NS'')
   \<and> first_word latin1_data (hd listing_ge) = Some (lit ''GE'')
   \<and> map_of (fst (add_rows latin1_data STATIC_TICKER_MAP listing_ge)) (lit ''GE'') = None"
proof -
  let ?db = latin1_data
  let ?sol = "\<lparr>SYMBOL = Str (lit ''SOL''), NAME_OF_COMPANY = Str (lit ''Sol Industries Limited'')\<rparr>"
  let ?t1 = "\<lparr>SYMBOL = Str (lit ''TATAMOTORS''), NAME_OF_COMPANY = Str (lit ''Tata Motors Limited'')\<rparr>"
  let ?t2 = "\<lparr>SYMBOL = Str (lit ''TATASTEEL''), NAME_OF_COMPANY = Str (lit ''Tata Steel Limited'')\<rparr>"
  have h1: "distinct (keys STATIC_TICKER_MAP)" by code_simp
  have c1: "distinct (keys (fst (add_rows ?db STATIC_TICKER_MAP listing_tata)))"
    using build_collisions [where d = STATIC_TICKER_MAP and rows = listing_tata and db = ?db] h1
    by blast
  have s0: "map_of STATIC_TICKER_MAP (lit ''SOL'') = Some (lit ''SOL-USD'')" by code_simp
  have s1: "snd (add_rows ?db STATIC_TICKER_MAP listing_sol) = None" by code_simp
  then have s2: "add_rows ?db STATIC_TICKER_MAP ([] @ ?sol # [])
      = (fst (add_rows ?db STATIC_TICKER_MAP listing_sol), None)"
    by (simp add: listing_sol_def prod_eq_iff)
  have u: "lit ''SOL'' = upper ?db (lit ''SOL'')" by code_simp
  have c2: "map_of (fst (add_rows ?db STATIC_TICKER_MAP listing_sol)) (lit ''SOL'')
      = Some (lit ''SOL'' @ lit ''.NS'')"
    using build_collisions [where d = STATIC_TICKER_MAP and rs = "[]" and r = ?sol and rs' = "[]"
        and d' = "fst (add_rows ?db STATIC_TICKER_MAP listing_sol)" and s = "lit ''SOL''"
        and n = "lit ''Sol Industries Limited''" and k = "lit ''SOL''" and db = ?db] s2 u
    by simp
  have c2': "lit ''SOL'' @ lit ''.NS'' = lit ''SOL.NS''" by code_simp
  have b0: "map_of STATIC_TICKER_MAP (lit ''BTC'') = Some (lit ''BTC-USD'')" by code_simp
  have b1: "list_all (\<lambda>r'. cell_upper ?db (SYMBOL r') \<noteq> Inr (lit ''BTC'')
              \<and> cell_upper ?db (NAME_OF_COMPANY r') \<noteq> Inr (lit ''BTC'')) listing_sol" by code_simp
  have c3: "map_of (fst (add_rows ?db STATIC_TICKER_MAP listing_sol)) (lit ''BTC'')
      = Some (lit ''BTC-USD'')"
    using build_collisions [where d = STATIC_TICKER_MAP and rows = listing_sol
        and d'' = "fst (add_rows ?db STATIC_TICKER_MAP listing_sol)"
        and e = "snd (add_rows ?db STATIC_TICKER_MAP listing_sol)" and k = "lit ''BTC''"
        and v = "lit ''BTC-USD''" and db = ?db] b0 b1
    by (simp add: list_all_iff)
  have t0: "map_of STATIC_TICKER_MAP (lit ''TATA'') = None" by code_simp
  have t1: "snd (add_rows ?db STATIC_TICKER_MAP listing_tata) = None" by code_simp
  then have t2: "add_rows ?db STATIC_TICKER_MAP ([] @ ?t1 # [?t2])
      = (fst (add_rows ?db STATIC_TICKER_MAP listing_tata), None)"
    by (simp add: listing_tata_def prod_eq_iff)
  have f1: "first_word ?db ?t1 = Some (lit ''TATA'')" by code_simp
  have f2: "first_word ?db ?t2 = Some (lit ''TATA'')" by code_simp
  have l: "length (lit ''TATA'') > 2" by code_simp
  have t3: "list_all (\<lambda>r'. cell_upper ?db (SYMBOL r') \<noteq> Inr (lit ''TATA'')
              \<and> cell_upper ?db (NAME_OF_COMPANY r') \<noteq> Inr (lit ''TATA'')) ([] @ ?t1 # [?t2])"
    by code_simp
  have c4: "map_of (fst (add_rows ?db STATIC_TICKER_MAP listing_tata)) (lit ''TATA'')
      = Some (lit ''TATAMOTORS'' @ lit ''.NS'')"
    using build_collisions [where d = STATIC_TICKER_MAP and rs = "[]" and r = ?t1 and rs' = "[?t2]"
        and d' = "fst (add_rows ?db STATIC_TICKER_MAP listing_tata)" and s = "lit ''TATAMOTORS''"
        and k = "lit ''TATA''" and db = ?db] t2 f1 l t0 t3
    by (simp add: list_all_iff)
  have c4': "lit ''TATAMOTORS'' @ lit ''.NS'' = lit ''TATAMOTORS.NS''" by code_simp
  have g0: "map_of STATIC_TICKER_MAP (lit ''GE'') = None" by code_simp
  have g1: "first_word ?db (hd listing_ge) = Some (lit ''GE'')" by code_simp
  have g2: "length (lit ''GE'') \<le> 2" by code_simp
  have g3: "list_all (\<lambda>r'. cell_upper ?db (SYMBOL r') \<noteq> Inr (lit ''GE'')
              \<and> cell_upper ?db (NAME_OF_COMPANY r') \<noteq> Inr (lit ''GE'')) listing_ge" by code_simp
  have c5: "map_of (fst (add_rows ?db STATIC_TICKER_MAP listing_ge)) (lit ''GE'') = None"
    using build_collisions [where d = STATIC_TICKER_MAP and rows = listing_ge
        and d'' = "fst (add_rows ?db STATIC_TICKER_MAP listing_ge)"
        and e = "snd (add_rows ?db STATIC_TICKER_MAP listing_ge)" and k = "lit ''GE''"
        and db = ?db] g0 g2 g3
    by (simp add: list_all_iff)
  have f1': "first_word ?db (hd listing_tata) = Some (lit ''TATA'')" by code_simp
  have f2': "first_word ?db (hd (tl listing_tata)) = Some (lit ''TATA'')" by code_simp
  from h1 c1 s0 s1 c2 c2' c3 t0 t1 f1' f2' c4 c4' g1 c5 show ?thesis by simp
qed

text \<open>
  The claim as written, that the later write wins on every collision, fails for two rows
  whose company names start with the same word: the first row writes the alias \<^verbatim>\<open>TATA\<close>,
  and the second row, whose first word is \<^verbatim>\<open>TATA\<close> too, leaves it as it is.
\<close>

theorem build_collisions_counterexample:
  "add_rows latin1_data STATIC_TICKER_MAP listing_tata
     = (STATIC_TICKER_MAP @
          [(lit ''TATAMOTORS'', (lit ''TATAMOTORS.NS'')), (lit ''TATA MOTORS LIMITED'', (lit ''TATAMOTORS.NS'')),
           (lit ''TATA'', (lit ''TATAMOTORS.NS'')),
           (lit ''TATASTEEL'', (lit ''TATASTEEL.NS'')), (lit ''TATA STEEL LIMITED'', (lit ''TATASTEEL.NS''))], None)
   \<and> split (upper latin1_data (lit ''Tata Motors Limited'')) = [lit ''TATA'', lit ''MOTORS'', lit ''LIMITED'']
   \<and> split (upper latin1_data (lit ''Tata Steel Limited'')) = [lit ''TATA'', lit ''STEEL'', lit ''LIMITED'']
   \<and> map_of (fst (add_rows latin1_data STATIC_TICKER_MAP listing_tata)) (lit ''TATA'') = Some (lit ''TATAMOTORS.NS'')"
  by code_simp

text \<open>
  Keys are compared after Python's upper-casing: a row whose symbol is the sharp s (U+00DF)
  writes under \<^verbatim>\<open>SS\<close>, and overwrites an alias \<^verbatim>\<open>SS\<close> that is there.
\<close>

lemma sharp_s_row_overwrites:
  "cell_upper latin1_data (SYMBOL (hd listing_sharp_s)) = Inr (lit ''SS'')
   \<and> map_of (fst (add_rows latin1_data [(lit ''SS'', lit ''SS.NS'')] listing_sharp_s)) (lit ''SS'')
       = Some (0xDF # lit ''.NS'')"
  by code_simp

section \<open>Crypto shorthand in the two resolvers\<close>

lemma contains_suffix: "contains s x \<Longrightarrow> contains (p @ s) x"
proof (induction p)
  case Nil
  then show ?case by simp
next
  case (Cons c p)
  then show ?case by simp
qed

lemma usd_has_hyphen: "contains (q @ lit ''-USD'') (lit ''-'')"
proof -
  have "contains (lit ''-USD'') (lit ''-'')" by code_simp
  then show ?thesis by (rule contains_suffix)
qed

lemma usd_has_marker: "has_marker (q @ lit ''-USD'')"
  using usd_has_hyphen [of q] by (simp add: has_marker_def markers_def)

lemma tenali_fallback_usd: "tenali_fallback (q @ lit ''-USD'') = q @ lit ''-USD''"
  using usd_has_hyphen [of q] by (simp add: tenali_fallback_def)

lemma seeds_initial:
  assumes "q \<in> set crypto_shorthand"
  shows "map_of (TICKER_MAP initial_state) q = Some (q @ lit ''-USD'')"
proof -
  have "list_all (\<lambda>q. map_of (TICKER_MAP initial_state) q = Some (q @ lit ''-USD'')) crypto_shorthand"
    by code_simp
  with assms show ?thesis by (simp add: list_all_iff)
qed

lemma seed_survives_load:
  assumes "map_of (TICKER_MAP st) q = Some v"
    and "\<forall>rows. resp = Response 200 (Some rows) \<longrightarrow>
           (\<forall>r \<in> set rows. cell_upper db (SYMBOL r) \<noteq> Inr q \<and> cell_upper db (NAME_OF_COMPANY r) \<noteq> Inr q)"
  shows "map_of (TICKER_MAP (load_ticker_map db resp st)) q = Some v"
proof (cases resp)
  case RequestRaises
  with assms(1) show ?thesis by (simp add: load_ticker_map_def)
next
  case (Response code frame)
  show ?thesis
  proof (cases "code = 200 \<and> frame \<noteq> None \<and> length (TICKER_MAP st) \<le> length STATIC_TICKER_MAP")
    case False
    with Response assms(1) show ?thesis by (auto simp: load_ticker_map_def)
  next
    case True
    then obtain rows where f: "frame = Some rows" by auto
    obtain d e where r: "add_rows db (TICKER_MAP st) rows = (d, e)"
      by (cases "add_rows db (TICKER_MAP st) rows")
    have "\<forall>r \<in> set rows. cell_upper db (SYMBOL r) \<noteq> Inr q \<and> cell_upper db (NAME_OF_COMPANY r) \<noteq> Inr q"
      using assms(2) Response True f by simp
    from add_rows_keeps [OF r assms(1) this] have "map_of d q = Some v" .
    with Response True f r show ?thesis by (cases e) (auto simp: load_ticker_map_def)
  qed
qed

text \<open>
  Claim C9, as the code has it. For a query whose normalised form is one of \<^verbatim>\<open>BTC\<close>, \<^verbatim>\<open>ETH\<close>,
  \<^verbatim>\<open>SOL\<close>, \<^verbatim>\<open>ADA\<close>, \<^verbatim>\<open>XRP\<close>, \<^verbatim>\<open>DOGE\<close>, the tenali-llm resolver returns the shorthand with
  \<^verbatim>\<open>-USD\<close> appended whatever its directory holds, and the finos-app resolver returns the same
  symbol, without a lookup, as long as its directory still maps the shorthand to the seeded
  symbol. That is so at start-up, and it stays so through every load whose listing has no row
  with the shorthand as symbol or company name.
\<close>

theorem crypto_shorthand_agree:
  assumes "q \<in> set crypto_shorthand" and "normalize_query db raw = q"
  shows "tenali_resolve db st' ratio' raw = Inr (q @ lit ''-USD'')
       \<and> (map_of (TICKER_MAP st) q = Some (q @ lit ''-USD'')
            \<longrightarrow> resolve db st ratio yf raw = Inr (q @ lit ''-USD'', []))
       \<and> resolve db initial_state ratio yf raw = Inr (q @ lit ''-USD'', [])
       \<and> (map_of (TICKER_MAP st) q = Some (q @ lit ''-USD'')
            \<and> (\<forall>rows. resp = Response 200 (Some rows) \<longrightarrow>
                  (\<forall>r \<in> set rows. cell_upper db (SYMBOL r) \<noteq> Inr q
                                    \<and> cell_upper db (NAME_OF_COMPANY r) \<noteq> Inr q))
            \<longrightarrow> resolve db (load_ticker_map db resp st) ratio yf raw = Inr (q @ lit ''-USD'', []))"
proof -
  have t: "tenali_resolve db st' ratio' raw = Inr (q @ lit ''-USD'')"
    using assms by (simp add: tenali_resolve_def tenali_match_def tenali_fallback_usd)
  have f: "resolve db s ratio yf raw = Inr (q @ lit ''-USD'', [])"
    if "map_of (TICKER_MAP s) q = Some (q @ lit ''-USD'')" for s
    using that assms(2) by (simp add: resolve_def match_alias_exact suffix_logic_marker usd_has_marker)
  have l: "resolve db (load_ticker_map db resp st) ratio yf raw = Inr (q @ lit ''-USD'', [])"
    if "map_of (TICKER_MAP st) q = Some (q @ lit ''-USD'')"
      and "\<forall>rows. resp = Response 200 (Some rows) \<longrightarrow>
                  (\<forall>r \<in> set rows. cell_upper db (SYMBOL r) \<noteq> Inr q
                                    \<and> cell_upper db (NAME_OF_COMPANY r) \<noteq> Inr q)"
    using f [OF seed_survives_load [OF that]] .
  from t f [of st] f [OF seeds_initial [OF assms(1)]] l show ?thesis by blast
qed

theorem crypto_shorthand_agree_witness:
  "(lit ''DOGE'') \<in> set crypto_shorthand \<and> normalize_query latin1_data (lit '' doge '') = lit ''DOGE''
   \<and> tenali_resolve latin1_data \<lparr>TICKER_MAP = [], TICKER_NAMES = []\<rparr> (scores ''DOGE'' []) (lit '' doge '')
       = Inr (lit ''DOGE-USD'')
   \<and> resolve latin1_data initial_state (scores ''DOGE'' []) provider_down (lit '' doge '') = Inr (lit ''DOGE-USD'', [])
   \<and> resolve latin1_data (load_ticker_map latin1_data (Response 200 (Some listing_tata)) initial_state)
         (scores ''DOGE'' []) provider_down (lit '' doge '') = Inr (lit ''DOGE-USD'', [])"
proof -
  have h1: "(lit ''DOGE'') \<in> set crypto_shorthand" by code_simp
  have h2: "normalize_query latin1_data (lit '' doge '') = lit ''DOGE''" by code_simp
  have h3: "map_of (TICKER_MAP initial_state) (lit ''DOGE'') = Some (lit ''DOGE'' @ lit ''-USD'')" by code_simp
  have cat: "lit ''DOGE'' @ lit ''-USD'' = lit ''DOGE-USD''" by code_simp
  have "list_all (\<lambda>r. cell_upper latin1_data (SYMBOL r) \<noteq> Inr (lit ''DOGE'')
          \<and> cell_upper latin1_data (NAME_OF_COMPANY r) \<noteq> Inr (lit ''DOGE'')) listing_tata" by code_simp
  then have h4: "\<forall>rows. Response 200 (Some listing_tata) = Response 200 (Some rows) \<longrightarrow>
      (\<forall>r \<in> set rows. cell_upper latin1_data (SYMBOL r) \<noteq> Inr (lit ''DOGE'')
          \<and> cell_upper latin1_data (NAME_OF_COMPANY r) \<noteq> Inr (lit ''DOGE''))"
    by (simp add: list_all_iff)
  from crypto_shorthand_agree [OF h1 h2, where st' = "\<lparr>TICKER_MAP = [], TICKER_NAMES = []\<rparr>"
      and ratio' = "scores ''DOGE'' []" and ratio = "scores ''DOGE'' []" and yf = provider_down
      and st = initial_state and resp = "Response 200 (Some listing_tata)"] h1 h2 h3 h4 cat
  show ?thesis by simp
qed

text \<open>
  The claim as written, for every state of the finos-app directory, fails once a listing
  with the symbol \<^verbatim>\<open>SOL\<close> has been loaded: the row overwrites the seeded alias.
\<close>

theorem crypto_shorthand_counterexample:
  "(lit ''SOL'') \<in> set crypto_shorthand
   \<and> map_of (TICKER_MAP (load_ticker_map latin1_data (Response 200 (Some listing_sol)) initial_state)) (lit ''SOL'')
       = Some (lit ''SOL.NS'')
   \<and> resolve latin1_data (load_ticker_map latin1_data (Response 200 (Some listing_sol)) initial_state)
         (scores ''SOL'' []) provider_down (lit ''sol'') = Inr (lit ''SOL.NS'', [])
   \<and> tenali_resolve latin1_data (load_ticker_map latin1_data (Response 200 (Some listing_sol)) initial_state)
         (scores ''SOL'' []) (lit ''sol'') = Inr (lit ''SOL-USD'')"
  by code_simp

end
